theory Spec2Isabelle
  imports Main "HOL-Library.Sublist" "HOL-Library.AList"
begin

section \<open>The skills manager script: init, sync and check over git submodules\<close>

text \<open>
  The script (the TypeScript program embedded in \<^verbatim>\<open>README.md\<close>, reading its registry from
  \<^verbatim>\<open>meta.ts\<close>) is glue over three collaborators: the file system, the \<^verbatim>\<open>git\<close> command line
  and an interactive prompt. The embedding makes each of them explicit.

  \<^item> A path is the list of its segments below the repository root: \<^verbatim>\<open>join\<close> is list
    concatenation, \<^verbatim>\<open>dirname\<close> drops the last segment, and the root is the empty list.
    Registry names are single segments, as every name of \<^verbatim>\<open>meta.ts\<close> is.
  \<^item> The file system is an association list from paths to nodes, read through
    \<open>lookupNode\<close>, together with the directories in which entries can neither be made
    nor removed (\<open>readonly\<close>, the way a mutation fails with EACCES).
  \<^item> \<^verbatim>\<open>execSync\<close> is an oracle of the environment: given the command line, the working
    directory and the file system it yields the exit status with the text printed and
    the file system the command leaves behind.
  \<^item> Every effect is appended to a trace, so that "the script never does X" is a
    statement about the trace.
  \<^item> A JavaScript exception is the value \<open>Inl e\<close>; the state reached when it was thrown
    is returned beside it.
\<close>

subsection \<open>Data\<close>

type_synonym path = "string list"

datatype node = File string | Dir

type_synonym fs = "(path \<times> node) list"

datatype error = FsError string path | ExecError string

datatype ptype = source | vendor

record Project =
  p_name :: string
  p_url :: string
  p_type :: ptype
  p_path :: path

record VendorSkillMeta =
  official :: bool
  vsource :: string
  skills :: "(string \<times> string) list"

datatype event =
    Exec string path
  | Mkdir path
  | Rm path
  | Cp path path
  | WriteFile path string
  | Multiselect "Project list"
  | LogInfo string
  | LogWarn string
  | LogSuccess string
  | LogMessage string
  | Cancel string
  | SpinnerStart string
  | SpinnerStop string

record state =
  nodes :: fs
  trace :: "event list"
  ticks :: nat

record env =
  submodules :: "(string \<times> string) list"
  vendors :: "(string \<times> VendorSkillMeta) list"
  shell :: "string \<Rightarrow> path \<Rightarrow> fs \<Rightarrow> (string + string) \<times> fs"
  readonly :: "path list"
  multiselect :: "Project list \<Rightarrow> Project list option"
  clock :: "nat \<Rightarrow> string"

text \<open>The registry of \<^verbatim>\<open>meta.ts\<close>, in the order \<^verbatim>\<open>Object.entries\<close> enumerates it.\<close>

definition meta_submodules :: "(string \<times> string) list" where
  "meta_submodules =
     [(''vue'', ''https://github.com/vuejs/docs''),
      (''nuxt'', ''https://github.com/nuxt/nuxt''),
      (''vite'', ''https://github.com/vitejs/vite''),
      (''unocss'', ''https://github.com/unocss/unocss'')]"

definition meta_vendors :: "(string \<times> VendorSkillMeta) list" where
  "meta_vendors =
     [(''slidev'', \<lparr>official = True, vsource = ''https://github.com/slidevjs/slidev'',
         skills = [(''slidev'', ''slidev'')]\<rparr>),
      (''vueuse'', \<lparr>official = True, vsource = ''https://github.com/vueuse/skills'',
         skills = [(''vueuse-functions'', ''vueuse'')]\<rparr>),
      (''vue-best-practices'', \<lparr>official = False, vsource = ''https://github.com/hyf0/vue-skills'',
         skills = [(''vue-best-practices'', ''vue-best-practices'')]\<rparr>)]"

subsection \<open>Strings and paths\<close>

text \<open>\<^verbatim>\<open>String.prototype.includes\<close>: does \<open>sub\<close> occur somewhere in \<open>content\<close>.\<close>

fun str_includes :: "string \<Rightarrow> string \<Rightarrow> bool" where
  "str_includes [] sub = (sub = [])"
| "str_includes (c # cs) sub = (prefix sub (c # cs) \<or> str_includes cs sub)"

text \<open>A path as the script writes it in a template string: segments joined by a slash.\<close>

fun path_text :: "path \<Rightarrow> string" where
  "path_text [] = []"
| "path_text [a] = a"
| "path_text (a # b # r) = a @ ''/'' @ path_text (b # r)"

definition dirname :: "path \<Rightarrow> path" where
  "dirname p = butlast p"

text \<open>\<^verbatim>\<open>Array.prototype.join\<close>.\<close>

fun join_with :: "string \<Rightarrow> string list \<Rightarrow> string" where
  "join_with sep [] = []"
| "join_with sep [a] = a"
| "join_with sep (a # b # r) = a @ sep @ join_with sep (b # r)"

text \<open>\<^verbatim>\<open>String.prototype.trim\<close>, on the white space of ASCII.\<close>

definition is_space :: "char \<Rightarrow> bool" where
  "is_space c = (c \<in> set [CHR '' '', CHR 0x09, CHR 0x0A, CHR 0x0B, CHR 0x0C, CHR 0x0D])"

definition trim :: "string \<Rightarrow> string" where
  "trim s = rev (dropWhile is_space (rev (dropWhile is_space s)))"

subsection \<open>The file system\<close>

definition lookupNode :: "fs \<Rightarrow> path \<Rightarrow> node option" where
  "lookupNode f p = (if p = [] then Some Dir else map_of f p)"

definition existsSync :: "fs \<Rightarrow> path \<Rightarrow> bool" where
  "existsSync f p = (lookupNode f p \<noteq> None)"

definition isFile :: "fs \<Rightarrow> path \<Rightarrow> bool" where
  "isFile f p = (case lookupNode f p of Some (File c) \<Rightarrow> True | _ \<Rightarrow> False)"

definition emit :: "event \<Rightarrow> state \<Rightarrow> state" where
  "emit ev s = s\<lparr>trace := trace s @ [ev]\<rparr>"

text \<open>What a run from \<open>s\<close> to \<open>s'\<close> has added to the trace.\<close>

definition effects :: "state \<Rightarrow> state \<Rightarrow> event list" where
  "effects s s' = drop (length (trace s)) (trace s')"

definition readFileSync :: "path \<Rightarrow> state \<Rightarrow> error + string" where
  "readFileSync p s =
     (case lookupNode (nodes s) p of
        None \<Rightarrow> Inl (FsError ''ENOENT'' p)
      | Some Dir \<Rightarrow> Inl (FsError ''EISDIR'' p)
      | Some (File c) \<Rightarrow> Inr c)"

text \<open>
  \<^verbatim>\<open>mkdirSync(p, { recursive: true })\<close>: every missing directory on the way to \<open>p\<close> is
  made; it fails when a segment on the way is a file or when a directory that would
  receive a new entry is read-only.
\<close>

definition missing_dirs :: "fs \<Rightarrow> path \<Rightarrow> path list" where
  "missing_dirs f p = filter (\<lambda>q. lookupNode f q = None) (prefixes p)"

definition mkdirSync :: "env \<Rightarrow> path \<Rightarrow> state \<Rightarrow> (error + unit) \<times> state" where
  "mkdirSync E p s =
     (if \<exists>q \<in> set (prefixes p). isFile (nodes s) q
      then (Inl (FsError ''EEXIST'' p), s)
      else if \<exists>q \<in> set (missing_dirs (nodes s) p). dirname q \<in> set (readonly E)
      then (Inl (FsError ''EACCES'' p), s)
      else (Inr (), emit (Mkdir p)
              (s\<lparr>nodes := nodes s @ map (\<lambda>q. (q, Dir)) (missing_dirs (nodes s) p)\<rparr>)))"

text \<open>The idiom \<^verbatim>\<open>if (!existsSync(d)) mkdirSync(d, { recursive: true })\<close>.\<close>

definition ensureDir :: "env \<Rightarrow> path \<Rightarrow> state \<Rightarrow> (error + unit) \<times> state" where
  "ensureDir E d s = (if \<not> existsSync (nodes s) d then mkdirSync E d s else (Inr (), s))"

subsection \<open>Running commands\<close>

text \<open>
  \<^verbatim>\<open>exec\<close> runs the command and returns its trimmed output, or throws on a non-zero exit;
  \<^verbatim>\<open>execSafe\<close> turns the exception into \<^verbatim>\<open>null\<close>.
\<close>

definition exec :: "env \<Rightarrow> string \<Rightarrow> path \<Rightarrow> state \<Rightarrow> (error + string) \<times> state" where
  "exec E cmd cwd s =
     (case shell E cmd cwd (nodes s) of
        (Inl msg, f) \<Rightarrow> (Inl (ExecError msg), emit (Exec cmd cwd) (s\<lparr>nodes := f\<rparr>))
      | (Inr out, f) \<Rightarrow> (Inr (trim out), emit (Exec cmd cwd) (s\<lparr>nodes := f\<rparr>)))"

definition execSafe :: "env \<Rightarrow> string \<Rightarrow> path \<Rightarrow> state \<Rightarrow> string option \<times> state" where
  "execSafe E cmd cwd s =
     (case exec E cmd cwd s of
        (Inl e, s') \<Rightarrow> (None, s')
      | (Inr out, s') \<Rightarrow> (Some out, s'))"

definition getGitSha :: "env \<Rightarrow> path \<Rightarrow> state \<Rightarrow> string option \<times> state" where
  "getGitSha E dir s = execSafe E ''git rev-parse HEAD'' dir s"

text \<open>The text of a caught exception inside a template string.\<close>

fun error_text :: "error \<Rightarrow> string" where
  "error_text (ExecError msg) = ''Error: '' @ msg"
| "error_text (FsError code p) = ''Error: '' @ code @ '': '' @ path_text p"

subsection \<open>init\<close>

definition submoduleExists :: "state \<Rightarrow> path \<Rightarrow> error + bool" where
  "submoduleExists s p =
     (if \<not> existsSync (nodes s) [''.gitmodules''] then Inr False
      else case readFileSync [''.gitmodules''] s of
             Inl e \<Rightarrow> Inl e
           | Inr content \<Rightarrow> Inr (str_includes content (''path = '' @ path_text p)))"

definition allProjects :: "env \<Rightarrow> Project list" where
  "allProjects E =
     map (\<lambda>(name, url). \<lparr>p_name = name, p_url = url, p_type = source,
                          p_path = [''sources'', name]\<rparr>) (submodules E)
     @ map (\<lambda>(name, config). \<lparr>p_name = name, p_url = vsource config, p_type = vendor,
                          p_path = [''vendor'', name]\<rparr>) (vendors E)"

text \<open>\<^verbatim>\<open>Array.prototype.filter\<close> with a predicate that may throw.\<close>

fun filterE :: "('a \<Rightarrow> error + bool) \<Rightarrow> 'a list \<Rightarrow> error + 'a list" where
  "filterE f [] = Inr []"
| "filterE f (x # xs) =
     (case f x of
        Inl e \<Rightarrow> Inl e
      | Inr b \<Rightarrow> (case filterE f xs of
                    Inl e \<Rightarrow> Inl e
                  | Inr ys \<Rightarrow> Inr (if b then x # ys else ys)))"

definition notE :: "error + bool \<Rightarrow> error + bool" where
  "notE r = (case r of Inl e \<Rightarrow> Inl e | Inr b \<Rightarrow> Inr (\<not> b))"

fun ptype_text :: "ptype \<Rightarrow> string" where
  "ptype_text source = ''source''"
| "ptype_text vendor = ''vendor''"

text \<open>The command line \<^verbatim>\<open>git submodule add ${project.url} ${project.path}\<close>.\<close>

definition add_cmd :: "Project \<Rightarrow> string" where
  "add_cmd project = ''git submodule add '' @ p_url project @ '' '' @ path_text (p_path project)"

text \<open>The loop over the selected projects. The \<^verbatim>\<open>mkdirSync\<close> stands before the \<^verbatim>\<open>try\<close>.\<close>

fun initLoop :: "env \<Rightarrow> Project list \<Rightarrow> state \<Rightarrow> (error + unit) \<times> state" where
  "initLoop E [] s = (Inr (), s)"
| "initLoop E (project # rest) s =
     (let s1 = emit (SpinnerStart (''Adding submodule: '' @ p_name project)) s;
          parentDir = dirname (p_path project)
      in case ensureDir E parentDir s1 of
           (Inl e, s2) \<Rightarrow> (Inl e, s2)
         | (Inr u, s2) \<Rightarrow>
             (case exec E (add_cmd project) [] s2 of
                (Inr out, s3) \<Rightarrow>
                  initLoop E rest (emit (SpinnerStop (''Added: '' @ p_name project)) s3)
              | (Inl e, s3) \<Rightarrow>
                  initLoop E rest
                    (emit (SpinnerStop (''Failed to add '' @ p_name project @ '': ''
                                          @ error_text e)) s3)))"

definition existingProjects :: "env \<Rightarrow> state \<Rightarrow> error + Project list" where
  "existingProjects E s = filterE (\<lambda>p. submoduleExists s (p_path p)) (allProjects E)"

definition newProjects :: "env \<Rightarrow> state \<Rightarrow> error + Project list" where
  "newProjects E s = filterE (\<lambda>p. notE (submoduleExists s (p_path p))) (allProjects E)"

definition initSubmodules :: "env \<Rightarrow> state \<Rightarrow> (error + unit) \<times> state" where
  "initSubmodules E s =
     (case existingProjects E s of
        Inl e \<Rightarrow> (Inl e, s)
      | Inr existing \<Rightarrow>
     (case newProjects E s of
        Inl e \<Rightarrow> (Inl e, s)
      | Inr new \<Rightarrow>
          if length new = 0
          then (Inr (), emit (LogInfo ''All submodules already initialized'') s)
          else
            (let s1 = emit (Multiselect new) s
             in case multiselect E new of
                  None \<Rightarrow> (Inr (), emit (Cancel ''Cancelled'') s1)
                | Some selected \<Rightarrow>
                    (case initLoop E selected s1 of
                       (Inl e, s2) \<Rightarrow> (Inl e, s2)
                     | (Inr u, s2) \<Rightarrow>
                         (let s3 = emit (LogSuccess ''Submodules initialized'') s2
                          in if length existing > 0
                             then (Inr (), emit (LogInfo (''Already initialized: ''
                                     @ join_with '', '' (map p_name existing))) s3)
                             else (Inr (), s3))))))"

subsection \<open>More of the file system: remove, list, copy, write\<close>

text \<open>\<^verbatim>\<open>rmSync(p, { recursive: true })\<close>: \<open>p\<close> and everything below it goes; a missing \<open>p\<close> throws.\<close>

definition rmSync :: "env \<Rightarrow> path \<Rightarrow> state \<Rightarrow> (error + unit) \<times> state" where
  "rmSync E p s =
     (if \<not> existsSync (nodes s) p then (Inl (FsError ''ENOENT'' p), s)
      else if dirname p \<in> set (readonly E) then (Inl (FsError ''EACCES'' p), s)
      else (Inr (), emit (Rm p) (s\<lparr>nodes := filter (\<lambda>(q, n). \<not> prefix p q) (nodes s)\<rparr>)))"

text \<open>
  \<^verbatim>\<open>readdirSync(d, { recursive: true, withFileTypes: true })\<close>: one entry for every path
  strictly below \<open>d\<close>, as its full path (\<^verbatim>\<open>join(parentPath, name)\<close>) with the answer of
  \<^verbatim>\<open>isFile()\<close>.
\<close>

definition readdirSync :: "path \<Rightarrow> state \<Rightarrow> error + (path \<times> bool) list" where
  "readdirSync d s =
     (case lookupNode (nodes s) d of
        None \<Rightarrow> Inl (FsError ''ENOENT'' d)
      | Some (File c) \<Rightarrow> Inl (FsError ''ENOTDIR'' d)
      | Some Dir \<Rightarrow>
          Inr (map (\<lambda>q. (q, isFile (nodes s) q))
                 (remdups (filter (strict_prefix d) (map fst (nodes s))))))"

text \<open>
  \<^verbatim>\<open>cpSync(src, dst)\<close> of one file: the source must be a file, the destination must not be
  a directory and its parent must be one; an existing file is overwritten.
\<close>

definition cpSync :: "env \<Rightarrow> path \<Rightarrow> path \<Rightarrow> state \<Rightarrow> (error + unit) \<times> state" where
  "cpSync E src dst s =
     (case lookupNode (nodes s) src of
        None \<Rightarrow> (Inl (FsError ''ENOENT'' src), s)
      | Some Dir \<Rightarrow> (Inl (FsError ''EISDIR'' src), s)
      | Some (File c) \<Rightarrow>
          if lookupNode (nodes s) dst = Some Dir then (Inl (FsError ''EISDIR'' dst), s)
          else if lookupNode (nodes s) (dirname dst) \<noteq> Some Dir
          then (Inl (FsError ''ENOENT'' dst), s)
          else if lookupNode (nodes s) dst = None \<and> dirname dst \<in> set (readonly E)
          then (Inl (FsError ''EACCES'' dst), s)
          else (Inr (), emit (Cp src dst)
                  (s\<lparr>nodes := AList.update dst (File c) (nodes s)\<rparr>)))"

definition writeFileSync :: "env \<Rightarrow> path \<Rightarrow> string \<Rightarrow> state \<Rightarrow> (error + unit) \<times> state" where
  "writeFileSync E p content s =
     (if lookupNode (nodes s) p = Some Dir then (Inl (FsError ''EISDIR'' p), s)
      else if lookupNode (nodes s) (dirname p) \<noteq> Some Dir
      then (Inl (FsError ''ENOENT'' p), s)
      else if lookupNode (nodes s) p = None \<and> dirname p \<in> set (readonly E)
      then (Inl (FsError ''EACCES'' p), s)
      else (Inr (), emit (WriteFile p content)
              (s\<lparr>nodes := AList.update p (File content) (nodes s)\<rparr>)))"

subsection \<open>sync\<close>

definition arrow :: string where
  "arrow = [CHR 0xE2, CHR 0x86, CHR 0x92]"

definition nl :: string where
  "nl = [CHR 0x0A]"

text \<open>A value inside a template string: \<^verbatim>\<open>null\<close> prints as the word null.\<close>

fun template_text :: "string option \<Rightarrow> string" where
  "template_text None = ''null''"
| "template_text (Some v) = v"

definition syncContent :: "string \<Rightarrow> string \<Rightarrow> string option \<Rightarrow> string \<Rightarrow> string" where
  "syncContent vendorName sourceSkillName sha date =
     ''# Sync Info'' @ nl @ nl
     @ ''- **Source:** `vendor/'' @ vendorName @ ''/skills/'' @ sourceSkillName @ ''`'' @ nl
     @ ''- **Git SHA:** `'' @ template_text sha @ ''`'' @ nl
     @ ''- **Synced:** '' @ date @ nl"

definition licenseNames :: "string list" where
  "licenseNames = [''LICENSE'', ''LICENSE.md'', ''LICENSE.txt'',
                   ''license'', ''license.md'', ''license.txt'']"

fun copyFiles :: "env \<Rightarrow> path \<Rightarrow> path \<Rightarrow> (path \<times> bool) list \<Rightarrow> state
                    \<Rightarrow> (error + unit) \<times> state" where
  "copyFiles E sourceSkillPath outputPath [] s = (Inr (), s)"
| "copyFiles E sourceSkillPath outputPath ((fullPath, is_file) # files) s =
     (if is_file then
        (let relativePath = drop (length sourceSkillPath) fullPath;
             destPath = outputPath @ relativePath;
             destDir = dirname destPath
         in case ensureDir E destDir s of
              (Inl e, s1) \<Rightarrow> (Inl e, s1)
            | (Inr u, s1) \<Rightarrow>
                (case cpSync E fullPath destPath s1 of
                   (Inl e, s2) \<Rightarrow> (Inl e, s2)
                 | (Inr u, s2) \<Rightarrow> copyFiles E sourceSkillPath outputPath files s2))
      else copyFiles E sourceSkillPath outputPath files s)"

fun copyLicense :: "env \<Rightarrow> path \<Rightarrow> path \<Rightarrow> string list \<Rightarrow> state
                      \<Rightarrow> (error + unit) \<times> state" where
  "copyLicense E vendorPath outputPath [] s = (Inr (), s)"
| "copyLicense E vendorPath outputPath (licenseName # rest) s =
     (let licensePath = vendorPath @ [licenseName]
      in if existsSync (nodes s) licensePath
         then cpSync E licensePath (outputPath @ [''LICENSE.md'']) s
         else copyLicense E vendorPath outputPath rest s)"

text \<open>The body of the loop over the pairs of one vendor.\<close>

definition syncSkill :: "env \<Rightarrow> string \<Rightarrow> string \<times> string \<Rightarrow> state
                           \<Rightarrow> (error + unit) \<times> state" where
  "syncSkill E vendorName pair s =
     (case pair of (sourceSkillName, outputSkillName) \<Rightarrow>
      let vendorPath = [''vendor'', vendorName];
          sourceSkillPath = vendorPath @ [''skills''] @ [sourceSkillName];
          outputPath = [''skills'', outputSkillName]
      in if \<not> existsSync (nodes s) sourceSkillPath
         then (Inr (), emit (LogWarn (''Skill not found: vendor/'' @ vendorName @ ''/skills/''
                                        @ sourceSkillName)) s)
         else
          (let s0 = emit (SpinnerStart (''Syncing skill: '' @ sourceSkillName @ '' '' @ arrow
                                          @ '' '' @ outputSkillName)) s
           in case (if existsSync (nodes s0) outputPath then rmSync E outputPath s0
                    else (Inr (), s0)) of
                (Inl e, s1) \<Rightarrow> (Inl e, s1)
              | (Inr u, s1) \<Rightarrow>
             (case mkdirSync E outputPath s1 of
                (Inl e, s2) \<Rightarrow> (Inl e, s2)
              | (Inr u, s2) \<Rightarrow>
             (case readdirSync sourceSkillPath s2 of
                Inl e \<Rightarrow> (Inl e, s2)
              | Inr files \<Rightarrow>
             (case copyFiles E sourceSkillPath outputPath files s2 of
                (Inl e, s3) \<Rightarrow> (Inl e, s3)
              | (Inr u, s3) \<Rightarrow>
             (case copyLicense E vendorPath outputPath licenseNames s3 of
                (Inl e, s4) \<Rightarrow> (Inl e, s4)
              | (Inr u, s4) \<Rightarrow>
             (case getGitSha E vendorPath s4 of
                (sha, s5) \<Rightarrow>
             (let date = takeWhile (\<lambda>c. c \<noteq> CHR ''T'') (clock E (ticks s5));
                  s6 = s5\<lparr>ticks := Suc (ticks s5)\<rparr>
              in case writeFileSync E (outputPath @ [''SYNC.md''])
                        (syncContent vendorName sourceSkillName sha date) s6 of
                   (Inl e, s7) \<Rightarrow> (Inl e, s7)
                 | (Inr u, s7) \<Rightarrow>
                     (Inr (), emit (SpinnerStop (''Synced: '' @ sourceSkillName @ '' '' @ arrow
                                                   @ '' '' @ outputSkillName)) s7)))))))))"

fun syncSkills :: "env \<Rightarrow> string \<Rightarrow> (string \<times> string) list \<Rightarrow> state
                     \<Rightarrow> (error + unit) \<times> state" where
  "syncSkills E vendorName [] s = (Inr (), s)"
| "syncSkills E vendorName (pair # rest) s =
     (case syncSkill E vendorName pair s of
        (Inl e, s1) \<Rightarrow> (Inl e, s1)
      | (Inr u, s1) \<Rightarrow> syncSkills E vendorName rest s1)"

text \<open>The body of the loop over the vendors.\<close>

definition syncVendor :: "env \<Rightarrow> string \<times> VendorSkillMeta \<Rightarrow> state
                            \<Rightarrow> (error + unit) \<times> state" where
  "syncVendor E entry s =
     (case entry of (vendorName, config) \<Rightarrow>
      let vendorPath = [''vendor'', vendorName];
          vendorSkillsPath = vendorPath @ [''skills'']
      in if \<not> existsSync (nodes s) vendorPath
         then (Inr (), emit (LogWarn (''Vendor submodule not found: '' @ vendorName
                                        @ ''. Run init first.'')) s)
         else if \<not> existsSync (nodes s) vendorSkillsPath
         then (Inr (), emit (LogWarn (''No skills directory in vendor/'' @ vendorName
                                        @ ''/skills/'')) s)
         else syncSkills E vendorName (skills config) s)"

fun syncVendors :: "env \<Rightarrow> (string \<times> VendorSkillMeta) list \<Rightarrow> state
                      \<Rightarrow> (error + unit) \<times> state" where
  "syncVendors E [] s = (Inr (), s)"
| "syncVendors E (entry # rest) s =
     (case syncVendor E entry s of
        (Inl e, s1) \<Rightarrow> (Inl e, s1)
      | (Inr u, s1) \<Rightarrow> syncVendors E rest s1)"

definition syncSubmodules :: "env \<Rightarrow> state \<Rightarrow> (error + unit) \<times> state" where
  "syncSubmodules E s =
     (let s0 = emit (SpinnerStart ''Updating submodules...'') s
      in case exec E ''git submodule update --remote --merge'' [] s0 of
           (Inl e, s1) \<Rightarrow>
             (Inr (), emit (SpinnerStop (''Failed to update submodules: '' @ error_text e)) s1)
         | (Inr out, s1) \<Rightarrow>
             (case syncVendors E (vendors E) (emit (SpinnerStop ''Submodules updated'') s1) of
                (Inl e, s2) \<Rightarrow> (Inl e, s2)
              | (Inr u, s2) \<Rightarrow> (Inr (), emit (LogSuccess ''All skills synced'') s2)))"

subsection \<open>check\<close>








type_synonym update = "string \<times> string \<times> int"

definition rev_list_cmd :: string where
  "rev_list_cmd = ''git rev-list HEAD..@'' @ ''{u} --count''"











text \<open>A run from \<open>s\<close> to \<open>s'\<close> has only added events that satisfy \<open>P\<close>.\<close>

definition trace_ext :: "(event \<Rightarrow> bool) \<Rightarrow> state \<Rightarrow> state \<Rightarrow> bool" where
  "trace_ext P s s' = (\<exists>evs. trace s' = trace s @ evs \<and> (\<forall>ev \<in> set evs. P ev))"



text \<open>
  A file system is tree shaped when the parent of every entry is there. The association
  list can hold entries without parents; a real file system cannot.
\<close>

definition tree_shaped :: "fs \<Rightarrow> bool" where
  "tree_shaped f = list_all (\<lambda>(p, n). lookupNode f (butlast p) \<noteq> None) f"

text \<open>Nothing lies below the output directory of \<open>out\<close> when the directory is not there.\<close>

definition closed_output :: "fs \<Rightarrow> string \<Rightarrow> bool" where
  "closed_output f out =
     (lookupNode f [''skills'', out] = None
      \<longrightarrow> (\<forall>r. lookupNode f ([''skills'', out] @ r) = None))"

text \<open>The output names of the configured pairs, in the order of the loops.\<close>

definition outputs :: "(string \<times> VendorSkillMeta) list \<Rightarrow> string list" where
  "outputs vs = concat (map (\<lambda>(v, config). map snd (skills config)) vs)"

subsection \<open>Scenarios\<close>

text \<open>
  A stand-in for \<^verbatim>\<open>git\<close>: one vendor checkout knows its commit, three checkouts know
  how far behind they are, and adding \<^verbatim>\<open>sources/nuxt\<close> fails.
\<close>

definition demo_shell :: "string \<Rightarrow> path \<Rightarrow> fs \<Rightarrow> (string + string) \<times> fs" where
  "demo_shell cmd cwd f =
     (if cmd = ''git rev-parse HEAD'' then
        (if cwd = [''vendor'', ''slidev''] then (Inr (''4f9c2d7'' @ nl), f)
         else (Inl ''fatal: not a git repository'', f))
      else if cmd = rev_list_cmd then
        (if cwd = [''sources'', ''vue''] then (Inr (''3'' @ nl), f)
         else if cwd = [''sources'', ''nuxt''] then (Inr (''0'' @ nl), f)
         else if cwd = [''vendor'', ''slidev''] then (Inr (''12'' @ nl), f)
         else (Inl ''fatal: no upstream configured'', f))
      else if cmd = ''git submodule add https://github.com/nuxt/nuxt sources/nuxt''
      then (Inl ''fatal: unable to access the remote'', f)
      else (Inr [], f))"

definition demo_env :: env where
  "demo_env = \<lparr>submodules = meta_submodules, vendors = meta_vendors, shell = demo_shell,
                readonly = [], multiselect = Some,
                clock = (\<lambda>n. ''2026-11-03T09:30:00.000Z'')\<rparr>"

text \<open>The same, with an operator who cancels the prompt.\<close>

definition demo_env_cancel :: env where
  "demo_env_cancel = demo_env\<lparr>multiselect := (\<lambda>opts. None)\<rparr>"


text \<open>
  A manifest that registers \<^verbatim>\<open>sources/vue-router\<close> and \<^verbatim>\<open>vendor/slidev\<close>, in a
  repository that has no \<^verbatim>\<open>sources\<close> directory yet.
\<close>

definition demo_manifest :: string where
  "demo_manifest = ''path = sources/vue-router'' @ nl @ ''path = vendor/slidev'' @ nl"

definition demo_init :: state where
  "demo_init = \<lparr>nodes = [([''.gitmodules''], File demo_manifest), ([''vendor''], Dir),
                          ([''vendor'', ''slidev''], Dir)],
                 trace = [], ticks = 0\<rparr>"

definition demo_vue :: Project where
  "demo_vue = \<lparr>p_name = ''vue'', p_url = ''https://github.com/vuejs/docs'', p_type = source,
                p_path = [''sources'', ''vue'']\<rparr>"


definition demo_new :: "Project list" where
  "demo_new = filter (\<lambda>p. p_name p \<notin> set [''vue'', ''slidev'']) (allProjects demo_env)"

text \<open>A repository without a manifest, and one whose manifest registers every project.\<close>

definition demo_fresh :: state where
  "demo_fresh = \<lparr>nodes = [], trace = [], ticks = 0\<rparr>"

definition demo_registered :: state where
  "demo_registered =
     \<lparr>nodes = [([''.gitmodules''],
                 File (concat (map (\<lambda>p. ''path = '' @ path_text (p_path p) @ nl)
                                 (allProjects demo_env))))],
      trace = [], ticks = 0\<rparr>"



text \<open>
  A repository for \<open>sync()\<close>. The \<^verbatim>\<open>slidev\<close> checkout has a licence and a skill with a
  nested file; the \<^verbatim>\<open>vueuse\<close> checkout has a \<^verbatim>\<open>skills\<close> directory without the configured
  skill; the \<^verbatim>\<open>vue-best-practices\<close> checkout has its skill, no licence and no commit
  that \<^verbatim>\<open>git rev-parse\<close> can name. The published tree holds a stale file of an earlier
  \<^verbatim>\<open>slidev\<close> sync and an earlier \<^verbatim>\<open>vueuse\<close> skill.
\<close>

definition demo_sync :: state where
  "demo_sync =
     \<lparr>nodes = [([''vendor''], Dir),
               ([''vendor'', ''slidev''], Dir),
               ([''vendor'', ''slidev'', ''LICENSE''], File ''MIT''),
               ([''vendor'', ''slidev'', ''skills''], Dir),
               ([''vendor'', ''slidev'', ''skills'', ''slidev''], Dir),
               ([''vendor'', ''slidev'', ''skills'', ''slidev'', ''SKILL.md''], File ''X''),
               ([''vendor'', ''slidev'', ''skills'', ''slidev'', ''references''], Dir),
               ([''vendor'', ''slidev'', ''skills'', ''slidev'', ''references'', ''core.md''],
                  File ''Y''),
               ([''vendor'', ''vueuse''], Dir),
               ([''vendor'', ''vueuse'', ''skills''], Dir),
               ([''vendor'', ''vue-best-practices''], Dir),
               ([''vendor'', ''vue-best-practices'', ''skills''], Dir),
               ([''vendor'', ''vue-best-practices'', ''skills'', ''vue-best-practices''], Dir),
               ([''vendor'', ''vue-best-practices'', ''skills'', ''vue-best-practices'',
                 ''SKILL.md''], File ''Z''),
               ([''skills''], Dir),
               ([''skills'', ''slidev''], Dir),
               ([''skills'', ''slidev'', ''old.md''], File ''stale''),
               ([''skills'', ''vueuse''], Dir),
               ([''skills'', ''vueuse'', ''SKILL.md''], File ''V'')],
      trace = [], ticks = 0\<rparr>"

text \<open>An environment in which the update of the submodules fails.\<close>

definition demo_env_offline :: env where
  "demo_env_offline =
     demo_env\<lparr>shell := (\<lambda>cmd cwd f.
        if cmd = ''git submodule update --remote --merge''
        then (Inl ''fatal: unable to access the remote'', f)
        else demo_shell cmd cwd f)\<rparr>"

text \<open>
  A registry in which two pairs of one vendor publish to the same output directory, and
  a checkout in which the second of the two skills ships a \<^verbatim>\<open>SYNC.md\<close> of its own.
\<close>

definition demo_env_clash :: env where
  "demo_env_clash =
     demo_env\<lparr>vendors := [(''demo'', \<lparr>official = False, vsource = ''https://example.com/demo'',
                               skills = [(''alpha'', ''shared''), (''beta'', ''shared'')]\<rparr>)]\<rparr>"

definition demo_clash :: state where
  "demo_clash =
     \<lparr>nodes = [([''vendor''], Dir),
               ([''vendor'', ''demo''], Dir),
               ([''vendor'', ''demo'', ''skills''], Dir),
               ([''vendor'', ''demo'', ''skills'', ''alpha''], Dir),
               ([''vendor'', ''demo'', ''skills'', ''alpha'', ''A.md''], File ''A''),
               ([''vendor'', ''demo'', ''skills'', ''beta''], Dir),
               ([''vendor'', ''demo'', ''skills'', ''beta'', ''B.md''], File ''B''),
               ([''vendor'', ''demo'', ''skills'', ''beta'', ''SYNC.md''], File ''S'')],
      trace = [], ticks = 0\<rparr>"

section \<open>Facts about the embedding\<close>

subsection \<open>Strings, filters and the trace\<close>


lemma str_includes_iff: "str_includes content sub \<longleftrightarrow> (\<exists>pre post. content = pre @ sub @ post)"
proof (induction content)
  case Nil
  then show ?case by auto
next
  case (Cons c cs)
  show ?case
  proof
    assume "str_includes (c # cs) sub"
    then consider "prefix sub (c # cs)" | "str_includes cs sub" by auto
    then show "\<exists>pre post. c # cs = pre @ sub @ post"
    proof cases
      case 1
      then obtain post where "c # cs = sub @ post" by (auto simp: prefix_def)
      then have "c # cs = [] @ sub @ post" by simp
      then show ?thesis by blast
    next
      case 2
      with Cons.IH obtain pre post where "cs = pre @ sub @ post" by blast
      then have "c # cs = (c # pre) @ sub @ post" by simp
      then show ?thesis by blast
    qed
  next
    assume "\<exists>pre post. c # cs = pre @ sub @ post"
    then obtain pre post where eq: "c # cs = pre @ sub @ post" by blast
    show "str_includes (c # cs) sub"
    proof (cases pre)
      case Nil
      with eq have "prefix sub (c # cs)" by (simp add: prefix_def)
      then show ?thesis by simp
    next
      case (Cons a pre')
      with eq have "cs = pre' @ sub @ post" by simp
      with Cons.IH have "str_includes cs sub" by blast
      then show ?thesis by simp
    qed
  qed
qed

lemma filterE_total:
  "(\<And>x. x \<in> set xs \<Longrightarrow> f x = Inr (g x)) \<Longrightarrow> filterE f xs = Inr (filter g xs)"
  by (induction xs) auto

lemma filterE_Inr:
  "filterE f xs = Inr ys \<Longrightarrow> ys = filter (\<lambda>x. f x = Inr True) xs"
proof (induction xs arbitrary: ys)
  case Nil
  then show ?case by simp
next
  case (Cons x xs)
  show ?case
  proof (cases "f x")
    case (Inl e)
    with Cons.prems show ?thesis by simp
  next
    case (Inr b)
    note fx = this
    show ?thesis
    proof (cases "filterE f xs")
      case (Inl e)
      with Cons.prems fx show ?thesis by simp
    next
      case (Inr ys')
      from Cons.IH[OF Inr] have ih: "ys' = filter (\<lambda>x. f x = Inr True) xs" .
      from Cons.prems fx Inr have "ys = (if b then x # ys' else ys')" by simp
      with ih fx show ?thesis by (cases b) simp_all
    qed
  qed
qed

lemma submoduleExists_absent:
  "lookupNode (nodes s) [''.gitmodules''] = None \<Longrightarrow> submoduleExists s p = Inr False"
  by (simp add: submoduleExists_def existsSync_def)

lemma submoduleExists_file:
  "lookupNode (nodes s) [''.gitmodules''] = Some (File content) \<Longrightarrow>
   submoduleExists s p = Inr (str_includes content (''path = '' @ path_text p))"
  by (simp add: submoduleExists_def existsSync_def readFileSync_def)

lemma trace_emit [simp]: "trace (emit ev s) = trace s @ [ev]"
  and nodes_emit [simp]: "nodes (emit ev s) = nodes s"
  and ticks_emit [simp]: "ticks (emit ev s) = ticks s"
  by (simp_all add: emit_def)

lemma effects_append: "trace s' = trace s @ evs \<Longrightarrow> effects s s' = evs"
  unfolding effects_def by (erule ssubst) simp

lemma mkdirSync_trace:
  "mkdirSync E p s = (r, s') \<Longrightarrow>
   (r = Inr () \<and> trace s' = trace s @ [Mkdir p]) \<or> ((\<exists>e. r = Inl e) \<and> s' = s)"
  by (auto simp: mkdirSync_def split: if_splits)

lemma exec_trace:
  "exec E cmd cwd s = (r, s') \<Longrightarrow> trace s' = trace s @ [Exec cmd cwd]"
  by (auto simp: exec_def split: prod.splits sum.splits)


lemma ensureDir_trace:
  "ensureDir E p s = (r, s') \<Longrightarrow>
   (r = Inr () \<and> (trace s' = trace s @ [Mkdir p] \<or> s' = s)) \<or> ((\<exists>e. r = Inl e) \<and> s' = s)"
  by (auto simp: ensureDir_def split: if_splits dest: mkdirSync_trace)

lemma initLoop_Cons_cases:
  assumes "initLoop E (project # rest) s = (r, s')"
  obtains (mkfail) e where
      "ensureDir E (dirname (p_path project))
         (emit (SpinnerStart (''Adding submodule: '' @ p_name project)) s) = (Inl e, s')"
      "r = Inl e"
  | (added) s2 out s3 where
      "ensureDir E (dirname (p_path project))
         (emit (SpinnerStart (''Adding submodule: '' @ p_name project)) s) = (Inr (), s2)"
      "exec E (add_cmd project) [] s2 = (Inr out, s3)"
      "initLoop E rest (emit (SpinnerStop (''Added: '' @ p_name project)) s3) = (r, s')"
  | (failed) s2 e s3 where
      "ensureDir E (dirname (p_path project))
         (emit (SpinnerStart (''Adding submodule: '' @ p_name project)) s) = (Inr (), s2)"
      "exec E (add_cmd project) [] s2 = (Inl e, s3)"
      "initLoop E rest (emit (SpinnerStop (''Failed to add '' @ p_name project @ '': ''
                                          @ error_text e)) s3) = (r, s')"
proof -
  let ?s1 = "emit (SpinnerStart (''Adding submodule: '' @ p_name project)) s"
  obtain r2 s2 where mk: "ensureDir E (dirname (p_path project)) ?s1 = (r2, s2)"
    by (rule prod.exhaust)
  obtain r3 s3 where ex: "exec E (add_cmd project) [] s2 = (r3, s3)"
    by (rule prod.exhaust)
  from assms have step:
    "(case ensureDir E (dirname (p_path project)) ?s1 of
        (Inl e, s2) \<Rightarrow> (Inl e, s2)
      | (Inr u, s2) \<Rightarrow>
          (case exec E (add_cmd project) [] s2 of
             (Inr out, s3) \<Rightarrow>
               initLoop E rest (emit (SpinnerStop (''Added: '' @ p_name project)) s3)
           | (Inl e, s3) \<Rightarrow>
               initLoop E rest
                 (emit (SpinnerStop (''Failed to add '' @ p_name project @ '': ''
                                       @ error_text e)) s3))) = (r, s')"
    by (simp only: initLoop.simps Let_def)
  show thesis
  proof (cases r2)
    case (Inl e)
    with step mk have "s' = s2" "r = Inl e" by (simp_all only: prod.case sum.case prod.inject)
    with mk Inl show thesis by (intro mkfail[of e]) simp_all
  next
    case (Inr u)
    note r2 = this
    show thesis
    proof (cases r3)
      case (Inl e)
      with step mk ex r2 have
        "initLoop E rest (emit (SpinnerStop (''Failed to add '' @ p_name project @ '': ''
                                          @ error_text e)) s3) = (r, s')"
        by (simp only: prod.case sum.case)
      with mk ex r2 Inl show thesis by (intro failed[of s2 e s3]) simp_all
    next
      case (Inr out)
      with step mk ex r2 have
        "initLoop E rest (emit (SpinnerStop (''Added: '' @ p_name project)) s3) = (r, s')"
        by (simp only: prod.case sum.case)
      with mk ex r2 Inr show thesis by (intro added[of s2 out s3]) simp_all
    qed
  qed
qed

subsection \<open>The effects of init\<close>


lemma ensureDir_pre:
  assumes "ensureDir E d (emit ev s) = (Inr u, s2)"
  shows "\<exists>pre. trace s2 = trace s @ pre \<and> set pre \<subseteq> {ev, Mkdir d}"
proof -
  from ensureDir_trace[OF assms]
  consider "trace s2 = trace (emit ev s) @ [Mkdir d]" | "s2 = emit ev s" by auto
  then show ?thesis
  proof cases
    case 1
    then have "trace s2 = trace s @ [ev, Mkdir d]" by simp
    then show ?thesis by (intro exI[of _ "[ev, Mkdir d]"]) simp
  next
    case 2
    then have "trace s2 = trace s @ [ev]" by simp
    then show ?thesis by (intro exI[of _ "[ev]"]) simp
  qed
qed

lemma initLoop_effects:
  "initLoop E sel s = (r, s') \<Longrightarrow>
   \<exists>evs. trace s' = trace s @ evs \<and>
     (\<forall>cmd cwd. Exec cmd cwd \<in> set evs \<longrightarrow> (\<exists>proj \<in> set sel. cmd = add_cmd proj \<and> cwd = [])) \<and>
     (\<forall>opts. Multiselect opts \<notin> set evs)"
proof (induction sel arbitrary: s r s')
  case Nil
  then show ?case by simp
next
  case (Cons project rest)
  let ?s1 = "emit (SpinnerStart (''Adding submodule: '' @ p_name project)) s"
  let ?d = "dirname (p_path project)"
  from Cons.prems show ?case
  proof (cases rule: initLoop_Cons_cases)
    case (mkfail e)
    from ensureDir_trace[OF mkfail(1)] have "s' = ?s1" by auto
    then have "trace s' = trace s @ [SpinnerStart (''Adding submodule: '' @ p_name project)]"
      by (simp only: trace_emit)
    then show ?thesis by (intro exI[of _ "[SpinnerStart (''Adding submodule: '' @ p_name project)]"]) simp
  next
    case (added s2 out s3)
    from ensureDir_pre[OF added(1)] obtain pre where
      pre: "trace s2 = trace s @ pre" "set pre \<subseteq> {SpinnerStart (''Adding submodule: '' @ p_name project), Mkdir ?d}"
      by blast
    from exec_trace[OF added(2)] have t3: "trace s3 = trace s2 @ [Exec (add_cmd project) []]" .
    from Cons.IH[OF added(3)] obtain evs where
      evs: "trace s' = trace (emit (SpinnerStop (''Added: '' @ p_name project)) s3) @ evs"
        "\<forall>cmd cwd. Exec cmd cwd \<in> set evs \<longrightarrow> (\<exists>proj \<in> set rest. cmd = add_cmd proj \<and> cwd = [])"
        "\<forall>opts. Multiselect opts \<notin> set evs"
      by blast
    let ?all = "pre @ [Exec (add_cmd project) [], SpinnerStop (''Added: '' @ p_name project)] @ evs"
    from evs(1) t3 pre(1) have "trace s' = trace s @ ?all" by (simp only: trace_emit append_assoc append.simps)
    moreover from pre(2) evs(2) have "\<forall>cmd cwd. Exec cmd cwd \<in> set ?all \<longrightarrow> (\<exists>proj \<in> set (project # rest). cmd = add_cmd proj \<and> cwd = [])"
      by auto
    moreover from pre(2) evs(3) have "\<forall>opts. Multiselect opts \<notin> set ?all" by auto
    ultimately show ?thesis by blast
  next
    case (failed s2 e s3)
    let ?msg = "''Failed to add '' @ p_name project @ '': '' @ error_text e"
    from ensureDir_pre[OF failed(1)] obtain pre where
      pre: "trace s2 = trace s @ pre" "set pre \<subseteq> {SpinnerStart (''Adding submodule: '' @ p_name project), Mkdir ?d}"
      by blast
    from exec_trace[OF failed(2)] have t3: "trace s3 = trace s2 @ [Exec (add_cmd project) []]" .
    from Cons.IH[OF failed(3)] obtain evs where
      evs: "trace s' = trace (emit (SpinnerStop ?msg) s3) @ evs"
        "\<forall>cmd cwd. Exec cmd cwd \<in> set evs \<longrightarrow> (\<exists>proj \<in> set rest. cmd = add_cmd proj \<and> cwd = [])"
        "\<forall>opts. Multiselect opts \<notin> set evs"
      by blast
    let ?all = "pre @ [Exec (add_cmd project) [], SpinnerStop ?msg] @ evs"
    from evs(1) t3 pre(1) have "trace s' = trace s @ ?all" by (simp only: trace_emit append_assoc append.simps)
    moreover from pre(2) evs(2) have "\<forall>cmd cwd. Exec cmd cwd \<in> set ?all \<longrightarrow> (\<exists>proj \<in> set (project # rest). cmd = add_cmd proj \<and> cwd = [])"
      by auto
    moreover from pre(2) evs(3) have "\<forall>opts. Multiselect opts \<notin> set ?all" by auto
    ultimately show ?thesis by blast
  qed
qed


lemma notE_True: "notE r = Inr True \<longleftrightarrow> r = Inr False"
  by (cases r) (simp_all add: notE_def)

lemma newProjects_Inr:
  "newProjects E s = Inr new \<Longrightarrow>
   new = filter (\<lambda>p. submoduleExists s (p_path p) = Inr False) (allProjects E)"
  unfolding newProjects_def by (drule filterE_Inr) (simp only: notE_True)

lemma existingProjects_Inr:
  "existingProjects E s = Inr ex \<Longrightarrow>
   ex = filter (\<lambda>p. submoduleExists s (p_path p) = Inr True) (allProjects E)"
  unfolding existingProjects_def by (drule filterE_Inr)

lemma filterE_notE:
  "filterE (\<lambda>x. notE (f x)) xs = Inr ys \<Longrightarrow> \<exists>zs. filterE f xs = Inr zs"
proof (induction xs arbitrary: ys)
  case Nil
  then show ?case by simp
next
  case (Cons x xs)
  show ?case
  proof (cases "f x")
    case (Inl e)
    with Cons.prems show ?thesis by (simp add: notE_def)
  next
    case (Inr b)
    note fx = this
    show ?thesis
    proof (cases "filterE (\<lambda>x. notE (f x)) xs")
      case (Inl e)
      with Cons.prems fx show ?thesis by (simp add: notE_def)
    next
      case (Inr ys')
      from Cons.IH[OF Inr] obtain zs where "filterE f xs = Inr zs" by blast
      with fx show ?thesis by simp
    qed
  qed
qed

lemma initSubmodules_cases:
  obtains (err) e where "initSubmodules E s = (Inl e, s)" "\<forall>new. newProjects E s \<noteq> Inr new"
  | (none) "newProjects E s = Inr []"
      "initSubmodules E s = (Inr (), emit (LogInfo ''All submodules already initialized'') s)"
  | (cancel) new where "newProjects E s = Inr new" "new \<noteq> []" "multiselect E new = None"
      "initSubmodules E s = (Inr (), emit (Cancel ''Cancelled'') (emit (Multiselect new) s))"
  | (run) new sel r2 s2 tail where "newProjects E s = Inr new" "new \<noteq> []"
      "multiselect E new = Some sel"
      "initLoop E sel (emit (Multiselect new) s) = (r2, s2)"
      "fst (initSubmodules E s) = r2"
      "nodes (snd (initSubmodules E s)) = nodes s2"
      "trace (snd (initSubmodules E s)) = trace s2 @ tail"
      "set tail \<subseteq> range LogSuccess \<union> range LogInfo"
      "r2 = Inr () \<Longrightarrow> tail \<noteq> []"
proof (cases "existingProjects E s")
  case (Inl e)
  then have "initSubmodules E s = (Inl e, s)" by (simp add: initSubmodules_def)
  moreover from Inl have "\<forall>new. newProjects E s \<noteq> Inr new"
    unfolding existingProjects_def newProjects_def by (metis filterE_notE sum.distinct(1))
  ultimately show thesis by (rule err)
next
  case (Inr existing)
  note ex = this
  show thesis
  proof (cases "newProjects E s")
    case (Inl e)
    with ex have "initSubmodules E s = (Inl e, s)" by (simp add: initSubmodules_def)
    moreover from Inl have "\<forall>new. newProjects E s \<noteq> Inr new" by simp
    ultimately show thesis by (rule err)
  next
    case (Inr new)
    note nw = this
    show thesis
    proof (cases "new = []")
      case True
      with ex nw have "initSubmodules E s = (Inr (), emit (LogInfo ''All submodules already initialized'') s)"
        by (simp add: initSubmodules_def)
      with nw True show thesis by (intro none) simp_all
    next
      case False
      note ne = this
      show thesis
      proof (cases "multiselect E new")
        case None
        with ex nw ne have "initSubmodules E s = (Inr (), emit (Cancel ''Cancelled'') (emit (Multiselect new) s))"
          by (simp add: initSubmodules_def Let_def)
        with nw ne None show thesis by (intro cancel[of new]) simp_all
      next
        case (Some sel)
        obtain r2 s2 where lp: "initLoop E sel (emit (Multiselect new) s) = (r2, s2)"
          by (rule prod.exhaust)
        show thesis
        proof (cases r2)
          case (Inl e)
          with ex nw ne Some lp have "initSubmodules E s = (Inl e, s2)"
            by (simp add: initSubmodules_def Let_def)
          with nw ne Some lp Inl show thesis by (intro run[of new sel r2 s2 "[]"]) simp_all
        next
          case (Inr u)
          show thesis
          proof (cases "existing = []")
            case True
            with ex nw ne Some lp Inr have
              "initSubmodules E s = (Inr (), emit (LogSuccess ''Submodules initialized'') s2)"
              by (simp add: initSubmodules_def Let_def)
            with nw ne Some lp Inr show thesis
              by (intro run[of new sel r2 s2 "[LogSuccess ''Submodules initialized'']"]) simp_all
          next
            case False
            with ex nw ne Some lp Inr have
              "initSubmodules E s = (Inr (), emit (LogInfo (''Already initialized: ''
                   @ join_with '', '' (map p_name existing)))
                 (emit (LogSuccess ''Submodules initialized'') s2))"
              by (simp add: initSubmodules_def Let_def)
            with nw ne Some lp Inr show thesis
              by (intro run[of new sel r2 s2 "[LogSuccess ''Submodules initialized'',
                   LogInfo (''Already initialized: '' @ join_with '', '' (map p_name existing))]"]) simp_all
          qed
        qed
      qed
    qed
  qed
qed

lemma initSubmodules_effects:
  "\<exists>evs. trace (snd (initSubmodules E s)) = trace s @ evs \<and>
     (\<forall>opts. Multiselect opts \<in> set evs \<longrightarrow> newProjects E s = Inr opts) \<and>
     (\<forall>cmd cwd. Exec cmd cwd \<in> set evs \<longrightarrow>
        (\<exists>new sel. newProjects E s = Inr new \<and> multiselect E new = Some sel \<and>
           (\<exists>proj \<in> set sel. cmd = add_cmd proj \<and> cwd = [])))"
proof (cases E s rule: initSubmodules_cases)
  case (err e)
  then show ?thesis by (intro exI[of _ "[]"]) simp
next
  case none
  then show ?thesis
    by (intro exI[of _ "[LogInfo ''All submodules already initialized'']"]) simp
next
  case (cancel new)
  then show ?thesis
    by (intro exI[of _ "[Multiselect new, Cancel ''Cancelled'']"]) simp
next
  case (run new sel r2 s2 tail)
  from initLoop_effects[OF run(4)] obtain evs where
    evs: "trace s2 = trace (emit (Multiselect new) s) @ evs"
      "\<forall>cmd cwd. Exec cmd cwd \<in> set evs \<longrightarrow> (\<exists>proj \<in> set sel. cmd = add_cmd proj \<and> cwd = [])"
      "\<forall>opts. Multiselect opts \<notin> set evs"
    by blast
  let ?all = "Multiselect new # evs @ tail"
  from run(7) evs(1) have "trace (snd (initSubmodules E s)) = trace s @ ?all" by simp
  moreover from run(1,8) evs(3) have "\<forall>opts. Multiselect opts \<in> set ?all \<longrightarrow> newProjects E s = Inr opts"
    by auto
  moreover from run(1,3,8) evs(2) have "\<forall>cmd cwd. Exec cmd cwd \<in> set ?all \<longrightarrow>
        (\<exists>new sel. newProjects E s = Inr new \<and> multiselect E new = Some sel \<and>
           (\<exists>proj \<in> set sel. cmd = add_cmd proj \<and> cwd = []))"
    by auto
  ultimately show ?thesis by blast
qed




lemma newProjects_existing:
  assumes "newProjects E s = Inr new"
  shows "\<exists>ex. existingProjects E s = Inr ex"
  using assms unfolding existingProjects_def newProjects_def by (rule filterE_notE)


subsection \<open>Numbers as text\<close>














subsection \<open>The loops of check\<close>












subsection \<open>What the file system operations change\<close>

lemma lookupNode_root [simp]: "lookupNode f [] = Some Dir"
  by (simp add: lookupNode_def)

lemma map_of_filter_key:
  "map_of (filter (\<lambda>(q, n). P q) f) p = (if P p then map_of f p else None)"
  by (induction f) auto

lemma map_of_append_dirs:
  "map_of (f @ map (\<lambda>q. (q, Dir)) ds) p
     = (case map_of f p of Some n \<Rightarrow> Some n | None \<Rightarrow> if p \<in> set ds then Some Dir else None)"
proof -
  have "map_of (map (\<lambda>q. (q, Dir)) ds) p = (if p \<in> set ds then Some Dir else None)"
    by (induction ds) auto
  then show ?thesis by (simp add: map_add_def split: option.splits)
qed

text \<open>mkdirSync: the missing directories on the way appear, nothing else changes\<close>

lemma mkdirSync_lookup:
  assumes "mkdirSync E p s = (Inr u, s')"
  shows "lookupNode (nodes s') q
           = (if lookupNode (nodes s) q = None \<and> prefix q p then Some Dir
              else lookupNode (nodes s) q)"
    and "\<forall>q. prefix q p \<longrightarrow> lookupNode (nodes s') q = Some Dir"
proof -
  from assms have ok: "\<not> (\<exists>q \<in> set (prefixes p). isFile (nodes s) q)"
    and n: "nodes s' = nodes s @ map (\<lambda>q. (q, Dir)) (missing_dirs (nodes s) p)"
    by (auto simp: mkdirSync_def split: if_splits)
  have eq: "lookupNode (nodes s') q
           = (if lookupNode (nodes s) q = None \<and> prefix q p then Some Dir
              else lookupNode (nodes s) q)" for q
  proof (cases "q = []")
    case True
    then show ?thesis by simp
  next
    case False
    have m: "q \<in> set (missing_dirs (nodes s) p) \<longleftrightarrow> lookupNode (nodes s) q = None \<and> prefix q p"
      by (auto simp: missing_dirs_def)
    have "map_of (nodes s') q
            = (case map_of (nodes s) q of Some n \<Rightarrow> Some n
               | None \<Rightarrow> if q \<in> set (missing_dirs (nodes s) p) then Some Dir else None)"
      by (simp only: n map_of_append_dirs)
    with False m show ?thesis
      by (simp add: lookupNode_def split: option.splits)
  qed
  show "lookupNode (nodes s') q
           = (if lookupNode (nodes s) q = None \<and> prefix q p then Some Dir
              else lookupNode (nodes s) q)"
    by (rule eq)
  show "\<forall>q. prefix q p \<longrightarrow> lookupNode (nodes s') q = Some Dir"
  proof (intro allI impI)
    fix q assume pq: "prefix q p"
    with ok have nf: "\<not> isFile (nodes s) q" by simp
    show "lookupNode (nodes s') q = Some Dir"
    proof (cases "lookupNode (nodes s) q")
      case None
      with pq eq[of q] show ?thesis by simp
    next
      case (Some n)
      with nf have "n = Dir" by (cases n) (simp_all add: isFile_def)
      with Some eq[of q] show ?thesis by simp
    qed
  qed
qed

lemma mkdirSync_ticks: "mkdirSync E p s = (r, s') \<Longrightarrow> ticks s' = ticks s"
  by (auto simp: mkdirSync_def split: if_splits)

lemma ensureDir_lookup:
  assumes "ensureDir E d s = (Inr u, s')"
  shows "lookupNode (nodes s') q = lookupNode (nodes s) q
         \<or> (lookupNode (nodes s) q = None \<and> lookupNode (nodes s') q = Some Dir \<and> prefix q d)"
proof (cases "existsSync (nodes s) d")
  case True
  with assms show ?thesis by (simp add: ensureDir_def)
next
  case False
  with assms have "mkdirSync E d s = (Inr u, s')" by (simp add: ensureDir_def)
  from mkdirSync_lookup(1)[OF this, of q] show ?thesis by (simp split: if_splits)
qed

lemma ensureDir_exists:
  assumes "ensureDir E d s = (Inr u, s')"
  shows "lookupNode (nodes s') d \<noteq> None"
proof (cases "existsSync (nodes s) d")
  case True
  with assms have "s' = s" by (simp add: ensureDir_def)
  with True show ?thesis by (simp add: existsSync_def)
next
  case False
  with assms have "mkdirSync E d s = (Inr u, s')" by (simp add: ensureDir_def)
  from mkdirSync_lookup(2)[OF this] show ?thesis by simp
qed

lemma ensureDir_ticks: "ensureDir E p s = (r, s') \<Longrightarrow> ticks s' = ticks s"
  by (auto simp: ensureDir_def split: if_splits dest: mkdirSync_ticks)

text \<open>rmSync: the subtree goes, nothing else changes\<close>

lemma rmSync_lookup:
  assumes "rmSync E p s = (Inr u, s')" and "p \<noteq> []"
  shows "lookupNode (nodes s') q = (if prefix p q then None else lookupNode (nodes s) q)"
proof -
  from assms have n: "nodes s' = filter (\<lambda>(q, n). \<not> prefix p q) (nodes s)"
    by (auto simp: rmSync_def split: if_splits)
  show ?thesis
  proof (cases "q = []")
    case True
    with assms(2) show ?thesis by simp
  next
    case False
    then show ?thesis by (simp add: n lookupNode_def map_of_filter_key)
  qed
qed

lemma rmSync_ticks: "rmSync E p s = (r, s') \<Longrightarrow> ticks s' = ticks s"
  by (auto simp: rmSync_def split: if_splits)

text \<open>cpSync and writeFileSync: one file is written, nothing else changes\<close>

lemma cpSync_lookup:
  assumes "cpSync E src dst s = (Inr u, s')"
  shows "\<exists>c. lookupNode (nodes s) src = Some (File c)
           \<and> lookupNode (nodes s) dst \<noteq> Some Dir
           \<and> lookupNode (nodes s) (dirname dst) = Some Dir
           \<and> (\<forall>q. lookupNode (nodes s') q
                  = (if q = dst then Some (File c) else lookupNode (nodes s) q))"
proof (cases "lookupNode (nodes s) src")
  case None
  with assms show ?thesis by (simp add: cpSync_def)
next
  case (Some n)
  show ?thesis
  proof (cases n)
    case Dir
    with Some assms show ?thesis by (simp add: cpSync_def)
  next
    case (File c)
    with Some assms have a: "lookupNode (nodes s) dst \<noteq> Some Dir"
      "lookupNode (nodes s) (dirname dst) = Some Dir"
      and n: "nodes s' = AList.update dst (File c) (nodes s)"
      by (auto simp: cpSync_def split: if_splits)
    from a(1) have ne: "dst \<noteq> []" by auto
    have "\<forall>q. lookupNode (nodes s') q = (if q = dst then Some (File c) else lookupNode (nodes s) q)"
      using ne by (simp add: n lookupNode_def update_conv')
    with Some File a show ?thesis by blast
  qed
qed

lemma cpSync_ticks: "cpSync E src dst s = (r, s') \<Longrightarrow> ticks s' = ticks s"
  by (auto simp: cpSync_def split: if_splits option.splits node.splits)

lemma writeFileSync_lookup:
  assumes "writeFileSync E p content s = (Inr u, s')"
  shows "lookupNode (nodes s') q = (if q = p then Some (File content) else lookupNode (nodes s) q)"
proof -
  from assms have a: "lookupNode (nodes s) p \<noteq> Some Dir"
    and n: "nodes s' = AList.update p (File content) (nodes s)"
    by (auto simp: writeFileSync_def split: if_splits)
  from a have "p \<noteq> []" by auto
  then show ?thesis by (simp add: n lookupNode_def update_conv')
qed

subsection \<open>The events of sync\<close>





lemma trace_ext_same: "trace s' = trace s \<Longrightarrow> trace_ext P s s'"
  by (simp add: trace_ext_def)










lemma syncSkill_cases:
  assumes run: "syncSkill E v (src, out) s = (r, s')"
  obtains
    (skip) "\<not> existsSync (nodes s) ([''vendor'', v] @ [''skills''] @ [src])"
      "r = Inr ()"
      "s' = emit (LogWarn (''Skill not found: vendor/'' @ v @ ''/skills/'' @ src)) s"
  | (failed) e s0 s1 s2 files s3 s4 sha s5 where
      "existsSync (nodes s) ([''vendor'', v] @ [''skills''] @ [src])"
      "r = Inl e"
      "s0 = emit (SpinnerStart (''Syncing skill: '' @ src @ '' '' @ arrow @ '' '' @ out)) s"
      "(if existsSync (nodes s0) [''skills'', out] then rmSync E [''skills'', out] s0
        else (Inr (), s0)) = (Inl e, s')
       \<or> (if existsSync (nodes s0) [''skills'', out] then rmSync E [''skills'', out] s0
           else (Inr (), s0)) = (Inr (), s1) \<and>
         (mkdirSync E [''skills'', out] s1 = (Inl e, s')
          \<or> mkdirSync E [''skills'', out] s1 = (Inr (), s2) \<and>
            (readdirSync ([''vendor'', v] @ [''skills''] @ [src]) s2 = Inl e \<and> s' = s2
             \<or> readdirSync ([''vendor'', v] @ [''skills''] @ [src]) s2 = Inr files \<and>
               (copyFiles E ([''vendor'', v] @ [''skills''] @ [src]) [''skills'', out] files s2
                  = (Inl e, s')
                \<or> copyFiles E ([''vendor'', v] @ [''skills''] @ [src]) [''skills'', out] files s2
                    = (Inr (), s3) \<and>
                  (copyLicense E [''vendor'', v] [''skills'', out] licenseNames s3 = (Inl e, s')
                   \<or> copyLicense E [''vendor'', v] [''skills'', out] licenseNames s3 = (Inr (), s4) \<and>
                     getGitSha E [''vendor'', v] s4 = (sha, s5) \<and>
                     writeFileSync E ([''skills'', out] @ [''SYNC.md''])
                       (syncContent v src sha
                          (takeWhile (\<lambda>c. c \<noteq> CHR ''T'') (clock E (ticks s5))))
                       (s5\<lparr>ticks := Suc (ticks s5)\<rparr>) = (Inl e, s')))))"
  | (ok) s0 s1 s2 files s3 s4 sha s5 s7 where
      "existsSync (nodes s) ([''vendor'', v] @ [''skills''] @ [src])"
      "r = Inr ()"
      "s0 = emit (SpinnerStart (''Syncing skill: '' @ src @ '' '' @ arrow @ '' '' @ out)) s"
      "(if existsSync (nodes s0) [''skills'', out] then rmSync E [''skills'', out] s0
        else (Inr (), s0)) = (Inr (), s1)"
      "mkdirSync E [''skills'', out] s1 = (Inr (), s2)"
      "readdirSync ([''vendor'', v] @ [''skills''] @ [src]) s2 = Inr files"
      "copyFiles E ([''vendor'', v] @ [''skills''] @ [src]) [''skills'', out] files s2
         = (Inr (), s3)"
      "copyLicense E [''vendor'', v] [''skills'', out] licenseNames s3 = (Inr (), s4)"
      "getGitSha E [''vendor'', v] s4 = (sha, s5)"
      "writeFileSync E ([''skills'', out] @ [''SYNC.md''])
         (syncContent v src sha (takeWhile (\<lambda>c. c \<noteq> CHR ''T'') (clock E (ticks s5))))
         (s5\<lparr>ticks := Suc (ticks s5)\<rparr>) = (Inr (), s7)"
      "s' = emit (SpinnerStop (''Synced: '' @ src @ '' '' @ arrow @ '' '' @ out)) s7"
proof (cases "existsSync (nodes s) ([''vendor'', v] @ [''skills''] @ [src])")
  case False
  with run have "r = Inr ()"
    "s' = emit (LogWarn (''Skill not found: vendor/'' @ v @ ''/skills/'' @ src)) s"
    by (simp_all only: syncSkill_def Let_def prod.case if_True not_True_eq_False not_False_eq_True
        prod.inject simp_thms)
  with False show thesis by (rule skip)
next
  case True
  let ?srcP = "[''vendor'', v] @ [''skills''] @ [src]"
  let ?outP = "[''skills'', out]"
  define s0 where "s0 = emit (SpinnerStart (''Syncing skill: '' @ src @ '' '' @ arrow @ '' '' @ out)) s"
  obtain r1 s1 where st1: "(if existsSync (nodes s0) ?outP then rmSync E ?outP s0
        else (Inr (), s0)) = (r1, s1)" by (rule prod.exhaust)
  obtain r2 s2 where st2: "mkdirSync E ?outP s1 = (r2, s2)" by (rule prod.exhaust)
  obtain r3 s3 where st3: "copyFiles E ?srcP ?outP (projr (readdirSync ?srcP s2)) s2 = (r3, s3)"
    by (rule prod.exhaust)
  obtain r4 s4 where st4: "copyLicense E [''vendor'', v] ?outP licenseNames s3 = (r4, s4)"
    by (rule prod.exhaust)
  obtain sha s5 where st5: "getGitSha E [''vendor'', v] s4 = (sha, s5)" by (rule prod.exhaust)
  obtain r7 s7 where st7: "writeFileSync E (?outP @ [''SYNC.md''])
         (syncContent v src sha (takeWhile (\<lambda>c. c \<noteq> CHR ''T'') (clock E (ticks s5))))
         (s5\<lparr>ticks := Suc (ticks s5)\<rparr>) = (r7, s7)" by (rule prod.exhaust)
  from run True have body:
    "(case (if existsSync (nodes s0) ?outP then rmSync E ?outP s0 else (Inr (), s0)) of
        (Inl e, s1) \<Rightarrow> (Inl e, s1)
      | (Inr u, s1) \<Rightarrow>
     (case mkdirSync E ?outP s1 of
        (Inl e, s2) \<Rightarrow> (Inl e, s2)
      | (Inr u, s2) \<Rightarrow>
     (case readdirSync ?srcP s2 of
        Inl e \<Rightarrow> (Inl e, s2)
      | Inr files \<Rightarrow>
     (case copyFiles E ?srcP ?outP files s2 of
        (Inl e, s3) \<Rightarrow> (Inl e, s3)
      | (Inr u, s3) \<Rightarrow>
     (case copyLicense E [''vendor'', v] ?outP licenseNames s3 of
        (Inl e, s4) \<Rightarrow> (Inl e, s4)
      | (Inr u, s4) \<Rightarrow>
     (case getGitSha E [''vendor'', v] s4 of
        (sha, s5) \<Rightarrow>
          (case writeFileSync E (?outP @ [''SYNC.md''])
                  (syncContent v src sha (takeWhile (\<lambda>c. c \<noteq> CHR ''T'') (clock E (ticks s5))))
                  (s5\<lparr>ticks := Suc (ticks s5)\<rparr>) of
             (Inl e, s7) \<Rightarrow> (Inl e, s7)
           | (Inr u, s7) \<Rightarrow>
               (Inr (), emit (SpinnerStop (''Synced: '' @ src @ '' '' @ arrow @ '' '' @ out))
                          s7)))))))) = (r, s')"
    unfolding s0_def
    by (simp only: syncSkill_def Let_def prod.case if_True if_False not_True_eq_False
        not_False_eq_True simp_thms)
  show thesis
  proof (cases r1)
    case (Inl e)
    with body st1 have "r = Inl e" "s' = s1" by (simp_all only: prod.case sum.case prod.inject)
    with st1 Inl s0_def True show thesis by (intro failed[of e s0 s1 s2 "[]" s3 s4 sha s5]) simp_all
  next
    case (Inr u1)
    with st1 have st1': "(if existsSync (nodes s0) ?outP then rmSync E ?outP s0
        else (Inr (), s0)) = (Inr (), s1)" by simp
    show thesis
    proof (cases r2)
      case (Inl e)
      with body st1' st2 have "r = Inl e" "s' = s2"
        by (simp_all only: prod.case sum.case prod.inject)
      with st1' st2 Inl s0_def True show thesis
        by (intro failed[of e s0 s1 s2 "[]" s3 s4 sha s5]) simp_all
    next
      case (Inr u2)
      with st2 have st2': "mkdirSync E ?outP s1 = (Inr (), s2)" by simp
      show thesis
      proof (cases "readdirSync ?srcP s2")
        case (Inl e)
        with body st1' st2' have "r = Inl e" "s' = s2"
          by (simp_all only: prod.case sum.case prod.inject)
        with st1' st2' Inl s0_def True show thesis
          by (intro failed[of e s0 s1 s2 "[]" s3 s4 sha s5]) simp_all
      next
        case (Inr files)
        with st3 have st3a: "copyFiles E ?srcP ?outP files s2 = (r3, s3)" by simp
        show thesis
        proof (cases r3)
          case (Inl e)
          with body st1' st2' Inr st3a have "r = Inl e" "s' = s3"
            by (simp_all only: prod.case sum.case prod.inject)
          with st1' st2' Inr st3a Inl s0_def True show thesis
            by (intro failed[of e s0 s1 s2 files s3 s4 sha s5]) simp_all
        next
          case (Inr u3)
          with st3a have st3': "copyFiles E ?srcP ?outP files s2 = (Inr (), s3)" by simp
          note rd = \<open>readdirSync ?srcP s2 = Inr files\<close>
          show thesis
          proof (cases r4)
            case (Inl e)
            with body st1' st2' rd st3' st4 have "r = Inl e" "s' = s4"
              by (simp_all only: prod.case sum.case prod.inject)
            with st1' st2' rd st3' st4 Inl s0_def True show thesis
              by (intro failed[of e s0 s1 s2 files s3 s4 sha s5]) simp_all
          next
            case (Inr u4)
            with st4 have st4': "copyLicense E [''vendor'', v] ?outP licenseNames s3 = (Inr (), s4)"
              by simp
            show thesis
            proof (cases r7)
              case (Inl e)
              with body st1' st2' rd st3' st4' st5 st7 have "r = Inl e" "s' = s7"
                by (simp_all only: prod.case sum.case prod.inject)
              with st1' st2' rd st3' st4' st5 st7 Inl s0_def True show thesis
                by (intro failed[of e s0 s1 s2 files s3 s4 sha s5]) simp_all
            next
              case (Inr u7)
              with body st1' st2' rd st3' st4' st5 st7 have "r = Inr ()"
                "s' = emit (SpinnerStop (''Synced: '' @ src @ '' '' @ arrow @ '' '' @ out)) s7"
                by (simp_all only: prod.case sum.case prod.inject)
              with st1' st2' rd st3' st4' st5 st7 Inr s0_def True show thesis
                by (intro ok[of s0 s1 s2 files s3 s4 sha s5 s7]) simp_all
            qed
          qed
        qed
      qed
    qed
  qed
qed












subsection \<open>The copy loop\<close>

lemma ensureDir_cases:
  assumes "ensureDir E d s = (Inr u, s')"
  shows "(s' = s \<and> lookupNode (nodes s) d \<noteq> None) \<or> mkdirSync E d s = (Inr u, s')"
  using assms by (auto simp: ensureDir_def existsSync_def split: if_splits)

lemma prefix_append_cases:
  "prefix q (a @ b) \<Longrightarrow> prefix q a \<or> strict_prefix a q"
  by (auto simp: prefix_append strict_prefix_def)

lemma incomparable_under:
  assumes "\<not> prefix outP srcP" "\<not> prefix srcP outP"
  shows "\<not> prefix outP (srcP @ r)"
proof
  assume "prefix outP (srcP @ r)"
  from prefix_append_cases[OF this] assms show False by (auto simp: strict_prefix_def)
qed

lemma dirname_append: "rel \<noteq> [] \<Longrightarrow> dirname (outP @ rel) = outP @ butlast rel"
  by (simp add: dirname_def butlast_append)

lemma prefix_butlast_strict:
  assumes "rel \<noteq> []" and "prefix r (butlast rel)"
  shows "strict_prefix r rel"
proof -
  from assms(2) obtain z where z: "butlast rel = r @ z" by (auto simp: prefix_def)
  from assms(1) have "rel = butlast rel @ [last rel]" by simp
  with z have "rel = r @ (z @ [last rel])" by simp
  then show ?thesis by (metis append_is_Nil_conv not_Cons_self2 prefixI self_append_conv strict_prefixI)
qed

lemma strict_prefix_butlast:
  assumes "strict_prefix r rel"
  shows "prefix r (butlast rel)"
proof -
  from assms obtain z where z: "rel = r @ z" "z \<noteq> []" by (auto simp: strict_prefix_def prefix_def)
  then have "butlast rel = r @ butlast z" by (simp add: butlast_append)
  then show ?thesis by simp
qed

lemma prefix_strict_trans: "prefix r a \<Longrightarrow> strict_prefix a b \<Longrightarrow> strict_prefix r b"
  by (auto simp: strict_prefix_def prefix_def)

lemma copy_step:
  fixes L0 :: "path \<Rightarrow> node option"
  assumes ens: "ensureDir E (dirname (outP @ rel)) t = (Inr u, t1)"
    and cp: "cpSync E (srcP @ rel) (outP @ rel) t1 = (Inr u', t2)"
    and rel: "rel \<noteq> []"
    and inc: "\<not> prefix outP srcP" "\<not> prefix srcP outP"
    and I0: "\<forall>q. prefix q outP \<longrightarrow> L0 q = Some Dir"
    and I1: "\<forall>q. \<not> strict_prefix outP q \<longrightarrow> lookupNode (nodes t) q = L0 q"
    and I2: "\<forall>r c. r \<noteq> [] \<longrightarrow> (lookupNode (nodes t) (outP @ r) = Some (File c))
               = ((srcP @ r, True) \<in> set done \<and> L0 (srcP @ r) = Some (File c))"
    and I3: "\<forall>r. r \<noteq> [] \<longrightarrow> (lookupNode (nodes t) (outP @ r) = Some Dir)
               = (\<exists>r'. strict_prefix r r' \<and> (srcP @ r', True) \<in> set done)"
  shows "\<forall>q. \<not> strict_prefix outP q \<longrightarrow> lookupNode (nodes t2) q = L0 q"
    and "\<forall>r c. r \<noteq> [] \<longrightarrow> (lookupNode (nodes t2) (outP @ r) = Some (File c))
               = ((srcP @ r, True) \<in> set (done @ [(srcP @ rel, True)])
                  \<and> L0 (srcP @ r) = Some (File c))"
    and "\<forall>r. r \<noteq> [] \<longrightarrow> (lookupNode (nodes t2) (outP @ r) = Some Dir)
               = (\<exists>r'. strict_prefix r r' \<and> (srcP @ r', True) \<in> set (done @ [(srcP @ rel, True)]))"
proof -
  let ?d = "outP @ butlast rel"
  let ?dst = "outP @ rel"
  from ens rel have ens': "ensureDir E ?d t = (Inr u, t1)" by (simp add: dirname_append)
  note e1 = ensureDir_lookup[OF ens']
  from cpSync_lookup[OF cp] rel obtain c0 where
    c0: "lookupNode (nodes t1) (srcP @ rel) = Some (File c0)"
    and dstnd: "lookupNode (nodes t1) ?dst \<noteq> Some Dir"
    and dird: "lookupNode (nodes t1) ?d = Some Dir"
    and l2: "\<And>q. lookupNode (nodes t2) q = (if q = ?dst then Some (File c0) else lookupNode (nodes t1) q)"
    by (auto simp: dirname_append)
  have under: "strict_prefix outP ?dst" using rel by (simp add: strict_prefix_def)
  have srcout: "\<And>r. \<not> strict_prefix outP (srcP @ r)"
    using incomparable_under[OF inc] by (auto simp: strict_prefix_def)
  \<comment> \<open>outside the output directory nothing changes\<close>
  have out1: "lookupNode (nodes t1) q = lookupNode (nodes t) q" if "\<not> strict_prefix outP q" for q
  proof -
    from e1[of q] show ?thesis
    proof
      assume "lookupNode (nodes t1) q = lookupNode (nodes t) q"
      then show ?thesis .
    next
      assume a: "lookupNode (nodes t) q = None \<and> lookupNode (nodes t1) q = Some Dir \<and> prefix q ?d"
      with prefix_append_cases[of q outP "butlast rel"] that have "prefix q outP" by blast
      with I0 I1 that have "lookupNode (nodes t) q = Some Dir" by simp
      with a show ?thesis by simp
    qed
  qed
  show J1: "\<forall>q. \<not> strict_prefix outP q \<longrightarrow> lookupNode (nodes t2) q = L0 q"
  proof (intro allI impI)
    fix q assume q: "\<not> strict_prefix outP q"
    with under have "q \<noteq> ?dst" by auto
    with l2[of q] out1[OF q] I1 q show "lookupNode (nodes t2) q = L0 q" by simp
  qed
  have src0: "L0 (srcP @ rel) = Some (File c0)"
    using c0 out1[OF srcout] I1 srcout by simp
  \<comment> \<open>files in the output directory\<close>
  have file1: "(lookupNode (nodes t1) q = Some (File c)) = (lookupNode (nodes t) q = Some (File c))"
    for q c
    using e1[of q] by auto
  show "\<forall>r c. r \<noteq> [] \<longrightarrow> (lookupNode (nodes t2) (outP @ r) = Some (File c))
               = ((srcP @ r, True) \<in> set (done @ [(srcP @ rel, True)])
                  \<and> L0 (srcP @ r) = Some (File c))"
  proof (intro allI impI)
    fix r c assume r: "r \<noteq> ([] :: path)"
    show "(lookupNode (nodes t2) (outP @ r) = Some (File c))
               = ((srcP @ r, True) \<in> set (done @ [(srcP @ rel, True)])
                  \<and> L0 (srcP @ r) = Some (File c))"
    proof (cases "r = rel")
      case True
      with l2[of ?dst] src0 show ?thesis by auto
    next
      case False
      with l2[of "outP @ r"] file1[of "outP @ r" c] I2 r show ?thesis by simp
    qed
  qed
  \<comment> \<open>directories in the output directory\<close>
  show "\<forall>r. r \<noteq> [] \<longrightarrow> (lookupNode (nodes t2) (outP @ r) = Some Dir)
               = (\<exists>r'. strict_prefix r r' \<and> (srcP @ r', True) \<in> set (done @ [(srcP @ rel, True)]))"
  proof (intro allI impI)
    fix r assume r: "r \<noteq> ([] :: path)"
    show "(lookupNode (nodes t2) (outP @ r) = Some Dir)
               = (\<exists>r'. strict_prefix r r' \<and> (srcP @ r', True) \<in> set (done @ [(srcP @ rel, True)]))"
    proof
      assume a: "lookupNode (nodes t2) (outP @ r) = Some Dir"
      with l2[of "outP @ r"] have ne: "r \<noteq> rel" and d1: "lookupNode (nodes t1) (outP @ r) = Some Dir"
        by (auto split: if_splits)
      from e1[of "outP @ r"] d1 consider "lookupNode (nodes t) (outP @ r) = Some Dir"
        | "prefix (outP @ r) ?d" by auto
      then show "\<exists>r'. strict_prefix r r' \<and> (srcP @ r', True) \<in> set (done @ [(srcP @ rel, True)])"
      proof cases
        case 1
        with I3 r show ?thesis by auto
      next
        case 2
        then have "prefix r (butlast rel)" by simp
        with rel have "strict_prefix r rel" by (intro prefix_butlast_strict)
        then show ?thesis by auto
      qed
    next
      assume "\<exists>r'. strict_prefix r r' \<and> (srcP @ r', True) \<in> set (done @ [(srcP @ rel, True)])"
      then obtain r' where sp: "strict_prefix r r'"
        and m: "(srcP @ r', True) \<in> set done \<or> r' = rel" by auto
      have old: "lookupNode (nodes t2) (outP @ r) = Some Dir"
        if "\<exists>r''. strict_prefix r r'' \<and> (srcP @ r'', True) \<in> set done"
      proof -
        from that I3 r have d: "lookupNode (nodes t) (outP @ r) = Some Dir" by simp
        with e1[of "outP @ r"] have d1: "lookupNode (nodes t1) (outP @ r) = Some Dir" by auto
        with dstnd have "r \<noteq> rel" by auto
        with l2[of "outP @ r"] d1 show ?thesis by simp
      qed
      from m show "lookupNode (nodes t2) (outP @ r) = Some Dir"
      proof
        assume "(srcP @ r', True) \<in> set done"
        with sp old show ?thesis by blast
      next
        assume r': "r' = rel"
        with sp have pr: "prefix r (butlast rel)" by (intro strict_prefix_butlast) simp
        from sp r' have ne: "r \<noteq> rel" by auto
        from ensureDir_cases[OF ens'] show ?thesis
        proof
          assume "mkdirSync E ?d t = (Inr u, t1)"
          from mkdirSync_lookup(2)[OF this] pr have "lookupNode (nodes t1) (outP @ r) = Some Dir"
            by simp
          with l2[of "outP @ r"] ne show ?thesis by simp
        next
          assume same: "t1 = t \<and> lookupNode (nodes t) ?d \<noteq> None"
          with dird have dd: "lookupNode (nodes t) ?d = Some Dir" by simp
          from pr r have bl: "butlast rel \<noteq> []" by auto
          with I3 dd obtain r'' where
            "strict_prefix (butlast rel) r''" "(srcP @ r'', True) \<in> set done" by auto
          with pr have "\<exists>r''. strict_prefix r r'' \<and> (srcP @ r'', True) \<in> set done"
            by (blast intro: prefix_strict_trans)
          then show ?thesis by (rule old)
        qed
      qed
    qed
  qed
qed

lemma copyFiles_Cons_True:
  assumes "copyFiles E srcP outP ((p, True) # files) t = (Inr u, t')"
  obtains t1 t2 where
    "ensureDir E (dirname (outP @ drop (length srcP) p)) t = (Inr (), t1)"
    "cpSync E p (outP @ drop (length srcP) p) t1 = (Inr (), t2)"
    "copyFiles E srcP outP files t2 = (Inr u, t')"
proof -
  obtain r1 t1 where a: "ensureDir E (dirname (outP @ drop (length srcP) p)) t = (r1, t1)"
    by (rule prod.exhaust)
  obtain r2 t2 where b: "cpSync E p (outP @ drop (length srcP) p) t1 = (r2, t2)"
    by (rule prod.exhaust)
  from assms a have r1: "r1 = Inr ()" by (cases r1) (simp_all add: Let_def)
  from assms a b r1 have r2: "r2 = Inr ()" by (cases r2) (simp_all add: Let_def)
  from assms a b r1 r2 have "copyFiles E srcP outP files t2 = (Inr u, t')"
    by (simp add: Let_def)
  with a b r1 r2 show thesis by (intro that[of t1 t2]) simp_all
qed

lemma copyFiles_inv:
  fixes L0 :: "path \<Rightarrow> node option"
  assumes inc: "\<not> prefix outP srcP" "\<not> prefix srcP outP"
    and I0: "\<forall>q. prefix q outP \<longrightarrow> L0 q = Some Dir"
  shows "copyFiles E srcP outP fl t = (Inr u, t') \<Longrightarrow>
    (\<forall>(p, b) \<in> set fl. strict_prefix srcP p) \<Longrightarrow>
    (\<forall>q. \<not> strict_prefix outP q \<longrightarrow> lookupNode (nodes t) q = L0 q) \<Longrightarrow>
    (\<forall>r c. r \<noteq> [] \<longrightarrow> (lookupNode (nodes t) (outP @ r) = Some (File c))
               = ((srcP @ r, True) \<in> set done \<and> L0 (srcP @ r) = Some (File c))) \<Longrightarrow>
    (\<forall>r. r \<noteq> [] \<longrightarrow> (lookupNode (nodes t) (outP @ r) = Some Dir)
               = (\<exists>r'. strict_prefix r r' \<and> (srcP @ r', True) \<in> set done)) \<Longrightarrow>
    (\<forall>q. \<not> strict_prefix outP q \<longrightarrow> lookupNode (nodes t') q = L0 q) \<and>
    (\<forall>r c. r \<noteq> [] \<longrightarrow> (lookupNode (nodes t') (outP @ r) = Some (File c))
               = ((srcP @ r, True) \<in> set (done @ fl) \<and> L0 (srcP @ r) = Some (File c))) \<and>
    (\<forall>r. r \<noteq> [] \<longrightarrow> (lookupNode (nodes t') (outP @ r) = Some Dir)
               = (\<exists>r'. strict_prefix r r' \<and> (srcP @ r', True) \<in> set (done @ fl)))"
proof (induction fl arbitrary: t "done")
  case Nil
  then show ?case by simp
next
  case (Cons entry fl)
  obtain p b where entry: "entry = (p, b)" by (cases entry)
  from Cons.prems(2) entry have sp: "strict_prefix srcP p"
    and rest: "\<forall>(p, b) \<in> set fl. strict_prefix srcP p" by auto
  show ?case
  proof (cases b)
    case False
    then have bF: "b = False" by simp
    with Cons.prems(1) entry have run: "copyFiles E srcP outP fl t = (Inr u, t')" by simp
    from Cons.prems(4) have I2: "\<forall>r c. r \<noteq> [] \<longrightarrow>
        (lookupNode (nodes t) (outP @ r) = Some (File c))
          = ((srcP @ r, True) \<in> set (done @ [(p, False)]) \<and> L0 (srcP @ r) = Some (File c))"
      by simp
    from Cons.prems(5) have I3: "\<forall>r. r \<noteq> [] \<longrightarrow>
        (lookupNode (nodes t) (outP @ r) = Some Dir)
          = (\<exists>r'. strict_prefix r r' \<and> (srcP @ r', True) \<in> set (done @ [(p, False)]))"
      by simp
    from Cons.IH[OF run rest Cons.prems(3) I2 I3]
    show ?thesis unfolding entry bF by simp
  next
    case True
    then have bT: "b = True" by simp
    from sp obtain rel where rel: "p = srcP @ rel" "rel \<noteq> []"
      by (auto simp: strict_prefix_def prefix_def)
    then have dr: "drop (length srcP) p = rel" by simp
    from Cons.prems(1)[unfolded entry bT] obtain t1 t2 where
      st: "ensureDir E (dirname (outP @ rel)) t = (Inr (), t1)"
        "cpSync E (srcP @ rel) (outP @ rel) t1 = (Inr (), t2)"
        "copyFiles E srcP outP fl t2 = (Inr u, t')"
      by (rule copyFiles_Cons_True) (simp add: dr rel(1))
    note step = copy_step[OF st(1,2) rel(2) inc I0 Cons.prems(3,4,5)]
    from Cons.IH[OF st(3) rest step]
    show ?thesis unfolding entry bT rel(1) by simp
  qed
qed

text \<open>readdirSync lists exactly the paths strictly below the directory\<close>

lemma map_of_None_iff: "map_of f q = None \<longleftrightarrow> q \<notin> fst ` set f"
  by (simp add: map_of_eq_None_iff)

lemma readdirSync_entries:
  assumes "readdirSync d s = Inr files"
  shows "lookupNode (nodes s) d = Some Dir"
    and "\<forall>(p, b) \<in> set files. strict_prefix d p"
    and "\<And>p. ((p, True) \<in> set files)
           = (strict_prefix d p \<and> (\<exists>c. lookupNode (nodes s) p = Some (File c)))"
proof -
  from assms show dir: "lookupNode (nodes s) d = Some Dir"
    by (auto simp: readdirSync_def split: option.splits node.splits)
  with assms have files: "files = map (\<lambda>q. (q, isFile (nodes s) q))
      (remdups (filter (strict_prefix d) (map fst (nodes s))))"
    by (simp add: readdirSync_def)
  show "\<forall>(p, b) \<in> set files. strict_prefix d p"
    unfolding files by auto
  fix p
  have f: "isFile (nodes s) p = (\<exists>c. lookupNode (nodes s) p = Some (File c))"
    by (auto simp: isFile_def split: option.splits node.splits)
  have "(\<exists>c. lookupNode (nodes s) p = Some (File c)) \<Longrightarrow> strict_prefix d p
        \<Longrightarrow> p \<in> fst ` set (nodes s)"
    by (force dest: map_of_SomeD simp: lookupNode_def split: if_splits)
  then show "((p, True) \<in> set files)
           = (strict_prefix d p \<and> (\<exists>c. lookupNode (nodes s) p = Some (File c)))"
    unfolding files using f by auto
qed

lemma prepare_output:
  assumes rm: "(if existsSync (nodes s0) outP then rmSync E outP s0 else (Inr (), s0)) = (Inr (), s1)"
    and mk: "mkdirSync E outP s1 = (Inr (), s2)"
    and ne: "outP \<noteq> []"
    and closed: "lookupNode (nodes s0) outP = None \<longrightarrow> (\<forall>r. lookupNode (nodes s0) (outP @ r) = None)"
  shows "\<forall>q. prefix q outP \<longrightarrow> lookupNode (nodes s2) q = Some Dir"
    and "\<forall>r. r \<noteq> [] \<longrightarrow> lookupNode (nodes s2) (outP @ r) = None"
    and "\<forall>q. \<not> prefix outP q \<longrightarrow> lookupNode (nodes s2) q
           = (if lookupNode (nodes s0) q = None \<and> prefix q outP then Some Dir
              else lookupNode (nodes s0) q)"
proof -
  have l1: "lookupNode (nodes s1) q = (if prefix outP q then None else lookupNode (nodes s0) q)" for q
  proof (cases "existsSync (nodes s0) outP")
    case True
    with rm have "rmSync E outP s0 = (Inr (), s1)" by simp
    from rmSync_lookup[OF this ne] show ?thesis .
  next
    case False
    with rm have eq: "s1 = s0" by simp
    from False have "lookupNode (nodes s0) outP = None" by (simp add: existsSync_def)
    with closed have "\<forall>r. lookupNode (nodes s0) (outP @ r) = None" by simp
    then have "prefix outP q \<Longrightarrow> lookupNode (nodes s0) q = None" by (auto simp: prefix_def)
    with eq show ?thesis by simp
  qed
  note l2 = mkdirSync_lookup[OF mk]
  from l2(2) show "\<forall>q. prefix q outP \<longrightarrow> lookupNode (nodes s2) q = Some Dir" .
  show "\<forall>r. r \<noteq> [] \<longrightarrow> lookupNode (nodes s2) (outP @ r) = None"
  proof (intro allI impI)
    fix r :: path assume "r \<noteq> []"
    then have "\<not> prefix (outP @ r) outP" by (simp add: prefix_def)
    with l2(1)[of "outP @ r"] l1[of "outP @ r"] show "lookupNode (nodes s2) (outP @ r) = None"
      by simp
  qed
  show "\<forall>q. \<not> prefix outP q \<longrightarrow> lookupNode (nodes s2) q
           = (if lookupNode (nodes s0) q = None \<and> prefix q outP then Some Dir
              else lookupNode (nodes s0) q)"
    using l2(1) l1 by simp
qed

lemma copyLicense_lookup:
  assumes "copyLicense E vp outP names t = (Inr u, t')"
  shows "\<forall>q. q \<noteq> outP @ [''LICENSE.md''] \<longrightarrow> lookupNode (nodes t') q = lookupNode (nodes t) q"
    and "lookupNode (nodes t') (outP @ [''LICENSE.md''])
           = (case List.find (\<lambda>n. existsSync (nodes t) (vp @ [n])) names of
                None \<Rightarrow> lookupNode (nodes t) (outP @ [''LICENSE.md''])
              | Some n \<Rightarrow> lookupNode (nodes t) (vp @ [n]))"
    and "ticks t' = ticks t"
  using assms
proof (induction names)
  case Nil
  {
    case 1 then show ?case by simp
  next
    case 2 then show ?case by simp
  next
    case 3 then show ?case by simp
  }
next
  case (Cons n names)
  {
    case 1
    show ?case
    proof (cases "existsSync (nodes t) (vp @ [n])")
      case True
      with 1 have "cpSync E (vp @ [n]) (outP @ [''LICENSE.md'']) t = (Inr u, t')"
        by (simp add: Let_def)
      from cpSync_lookup[OF this] show ?thesis by auto
    next
      case False
      with 1 Cons(1) show ?thesis by (simp add: Let_def)
    qed
  next
    case 2
    show ?case
    proof (cases "existsSync (nodes t) (vp @ [n])")
      case True
      with 2 have "cpSync E (vp @ [n]) (outP @ [''LICENSE.md'']) t = (Inr u, t')"
        by (simp add: Let_def)
      from cpSync_lookup[OF this] True show ?thesis by auto
    next
      case False
      with 2 Cons(2) show ?thesis by (simp add: Let_def)
    qed
  next
    case 3
    show ?case
    proof (cases "existsSync (nodes t) (vp @ [n])")
      case True
      with 3 have "cpSync E (vp @ [n]) (outP @ [''LICENSE.md'']) t = (Inr u, t')"
        by (simp add: Let_def)
      from cpSync_ticks[OF this] show ?thesis .
    next
      case False
      with 3 Cons(3) show ?thesis by (simp add: Let_def)
    qed
  }
qed

lemma copyFiles_ticks: "copyFiles E srcP outP fl t = (r, t') \<Longrightarrow> ticks t' = ticks t"
proof (induction fl arbitrary: t)
  case Nil
  then show ?case by simp
next
  case (Cons entry fl)
  obtain p b where entry: "entry = (p, b)" by (cases entry)
  show ?case
  proof (cases b)
    case False
    with Cons entry show ?thesis by simp
  next
    case True
    obtain r1 t1 where a: "ensureDir E (dirname (outP @ drop (length srcP) p)) t = (r1, t1)"
      by (rule prod.exhaust)
    obtain r2 t2 where b: "cpSync E p (outP @ drop (length srcP) p) t1 = (r2, t2)"
      by (rule prod.exhaust)
    note k = ensureDir_ticks[OF a] cpSync_ticks[OF b]
    show ?thesis
    proof (cases r1)
      case (Inl e)
      with Cons.prems entry True a k show ?thesis by (simp add: Let_def)
    next
      case (Inr u)
      note r1 = this
      show ?thesis
      proof (cases r2)
        case (Inl e)
        with Cons.prems entry True a b r1 k show ?thesis by (simp add: Let_def)
      next
        case (Inr u2)
        with Cons.prems entry True a b r1 have "copyFiles E srcP outP fl t2 = (r, t')"
          by (simp add: Let_def)
        from Cons.IH[OF this] k show ?thesis by simp
      qed
    qed
  qed
qed

lemma getGitSha_state:
  assumes ro: "\<And>cwd g. snd (shell E ''git rev-parse HEAD'' cwd g) = g"
    and "getGitSha E dir s = (sha, s')"
  shows "nodes s' = nodes s" and "ticks s' = ticks s"
    and "sha = (case fst (shell E ''git rev-parse HEAD'' dir (nodes s)) of
                  Inl e \<Rightarrow> None | Inr out \<Rightarrow> Some (trim out))"
  using assms(2) ro[of dir "nodes s"]
  by (auto simp: getGitSha_def execSafe_def exec_def emit_def split: prod.splits sum.splits)

lemma node_eq_iff:
  fixes x y :: "node option"
  assumes f: "\<And>c. (x = Some (File c)) = (y = Some (File c))" and d: "(x = Some Dir) = (y = Some Dir)"
  shows "x = y"
proof (cases x)
  case None
  show ?thesis
  proof (cases y)
    case None
    with \<open>x = None\<close> show ?thesis by (simp only:)
  next
    case (Some n)
    show ?thesis
    proof (cases n)
      case (File c)
      with Some f[of c] have "x = Some (File c)" by blast
      with Some File show ?thesis by (simp only:)
    next
      case Dir
      with Some d have "x = Some Dir" by blast
      with Some Dir show ?thesis by (simp only:)
    qed
  qed
next
  case (Some n)
  show ?thesis
  proof (cases n)
    case (File c)
    with Some f[of c] have "y = Some (File c)" by blast
    with Some File show ?thesis by (simp only:)
  next
    case Dir
    with Some d have "y = Some Dir" by blast
    with Some Dir show ?thesis by (simp only:)
  qed
qed

lemma syncSkill_ok:
  assumes ro: "\<And>cwd g. snd (shell E ''git rev-parse HEAD'' cwd g) = g"
    and run: "syncSkill E v (src, out) s = (Inr u, s')"
    and ex: "existsSync (nodes s) [''vendor'', v, ''skills'', src]"
    and closed: "lookupNode (nodes s) [''skills'', out] = None
                 \<longrightarrow> (\<forall>r. lookupNode (nodes s) ([''skills'', out] @ r) = None)"
  shows "\<forall>q. \<not> prefix [''skills'', out] q \<longrightarrow> lookupNode (nodes s') q
           = (if lookupNode (nodes s) q = None \<and> prefix q [''skills'', out] then Some Dir
              else lookupNode (nodes s) q)"
    and "lookupNode (nodes s') [''skills'', out] = Some Dir"
    and "\<forall>r. r \<noteq> [] \<longrightarrow> r \<noteq> [''SYNC.md''] \<longrightarrow>
           (r = [''LICENSE.md''] \<longrightarrow>
              List.find (\<lambda>n. existsSync (nodes s) [''vendor'', v, n]) licenseNames = None) \<longrightarrow>
           (\<forall>c. (lookupNode (nodes s') ([''skills'', out] @ r) = Some (File c))
                = (lookupNode (nodes s) ([''vendor'', v, ''skills'', src] @ r) = Some (File c))) \<and>
           ((lookupNode (nodes s') ([''skills'', out] @ r) = Some Dir)
              = (\<exists>r'. strict_prefix r r' \<and>
                   (\<exists>c. lookupNode (nodes s) ([''vendor'', v, ''skills'', src] @ r') = Some (File c))))"
    and "\<forall>n. List.find (\<lambda>n. existsSync (nodes s) [''vendor'', v, n]) licenseNames = Some n \<longrightarrow>
           lookupNode (nodes s') [''skills'', out, ''LICENSE.md'']
             = lookupNode (nodes s) [''vendor'', v, n]"
    and "\<exists>g. lookupNode (nodes s') [''skills'', out, ''SYNC.md'']
           = Some (File (syncContent v src
               (case fst (shell E ''git rev-parse HEAD'' [''vendor'', v] g) of
                  Inl e \<Rightarrow> None | Inr out \<Rightarrow> Some (trim out))
               (takeWhile (\<lambda>c. c \<noteq> CHR ''T'') (clock E (ticks s)))))"
    and "ticks s' = Suc (ticks s)"
    and "lookupNode (nodes s) [''vendor'', v, ''skills'', src] = Some Dir"
proof -
  let ?srcP = "[''vendor'', v, ''skills'', src]"
  let ?outP = "[''skills'', out]"
  let ?L = "lookupNode (nodes s)"
  have inc: "\<not> prefix ?outP ?srcP" "\<not> prefix ?srcP ?outP" by simp_all
  from run ex obtain s0 s1 s2 files s3 s4 sha s5 s7 where
    s0: "s0 = emit (SpinnerStart (''Syncing skill: '' @ src @ '' '' @ arrow @ '' '' @ out)) s"
    and rm: "(if existsSync (nodes s0) ?outP then rmSync E ?outP s0 else (Inr (), s0)) = (Inr (), s1)"
    and mk: "mkdirSync E ?outP s1 = (Inr (), s2)"
    and rd: "readdirSync ?srcP s2 = Inr files"
    and cf: "copyFiles E ?srcP ?outP files s2 = (Inr (), s3)"
    and cl: "copyLicense E [''vendor'', v] ?outP licenseNames s3 = (Inr (), s4)"
    and gs: "getGitSha E [''vendor'', v] s4 = (sha, s5)"
    and wr: "writeFileSync E (?outP @ [''SYNC.md''])
         (syncContent v src sha (takeWhile (\<lambda>c. c \<noteq> CHR ''T'') (clock E (ticks s5))))
         (s5\<lparr>ticks := Suc (ticks s5)\<rparr>) = (Inr (), s7)"
    and s': "s' = emit (SpinnerStop (''Synced: '' @ src @ '' '' @ arrow @ '' '' @ out)) s7"
    by (cases rule: syncSkill_cases) simp_all
  have n0: "nodes s0 = nodes s" and k0: "ticks s0 = ticks s" by (simp_all add: s0)
  from closed n0 have closed0: "lookupNode (nodes s0) ?outP = None
                 \<longrightarrow> (\<forall>r. lookupNode (nodes s0) (?outP @ r) = None)" by simp
  note prep = prepare_output[OF rm mk _ closed0, unfolded n0]
  have P0: "\<forall>q. prefix q ?outP \<longrightarrow> lookupNode (nodes s2) q = Some Dir" by (rule prep(1)) simp
  have P1: "\<forall>r. r \<noteq> [] \<longrightarrow> lookupNode (nodes s2) (?outP @ r) = None" by (rule prep(2)) simp
  have P2: "\<forall>q. \<not> prefix ?outP q \<longrightarrow> lookupNode (nodes s2) q
           = (if ?L q = None \<and> prefix q ?outP then Some Dir else ?L q)" by (rule prep(3)) simp
  \<comment> \<open>the vendor tree is as before\<close>
  have src2: "lookupNode (nodes s2) (?srcP @ r) = ?L (?srcP @ r)" for r
  proof -
    have "\<not> prefix ?outP (?srcP @ r)" "\<not> prefix (?srcP @ r) ?outP" by simp_all
    with P2 show ?thesis by simp
  qed
  note rde = readdirSync_entries[OF rd]
  have files: "((?srcP @ r, True) \<in> set files) = (r \<noteq> [] \<and> (\<exists>c. ?L (?srcP @ r) = Some (File c)))"
    for r
    unfolding rde(3) src2 by (auto simp: strict_prefix_def)
  \<comment> \<open>the copy loop\<close>
  have I1: "\<forall>q. \<not> strict_prefix ?outP q \<longrightarrow> lookupNode (nodes s2) q = lookupNode (nodes s2) q"
    by simp
  have I2: "\<forall>r c. r \<noteq> [] \<longrightarrow> (lookupNode (nodes s2) (?outP @ r) = Some (File c))
               = ((?srcP @ r, True) \<in> set [] \<and> lookupNode (nodes s2) (?srcP @ r) = Some (File c))"
    using P1 by simp
  have I3: "\<forall>r. r \<noteq> [] \<longrightarrow> (lookupNode (nodes s2) (?outP @ r) = Some Dir)
               = (\<exists>r'. strict_prefix r r' \<and> (?srcP @ r', True) \<in> set [])"
    using P1 by simp
  from copyFiles_inv[OF inc P0 cf rde(2) I1 I2 I3]
  have C1: "\<forall>q. \<not> strict_prefix ?outP q \<longrightarrow> lookupNode (nodes s3) q = lookupNode (nodes s2) q"
    and C2: "\<forall>r c. r \<noteq> [] \<longrightarrow> (lookupNode (nodes s3) (?outP @ r) = Some (File c))
               = ((?srcP @ r, True) \<in> set files \<and> lookupNode (nodes s2) (?srcP @ r) = Some (File c))"
    and C3: "\<forall>r. r \<noteq> [] \<longrightarrow> (lookupNode (nodes s3) (?outP @ r) = Some Dir)
               = (\<exists>r'. strict_prefix r r' \<and> (?srcP @ r', True) \<in> set files)"
    by simp_all
  have T3: "(lookupNode (nodes s3) (?outP @ r) = Some (File c)) = (?L (?srcP @ r) = Some (File c))"
    if "r \<noteq> []" for r c
    using C2 that files[of r] src2[of r] by auto
  have D3: "(lookupNode (nodes s3) (?outP @ r) = Some Dir)
      = (\<exists>r'. strict_prefix r r' \<and> (\<exists>c. ?L (?srcP @ r') = Some (File c)))"
    if "r \<noteq> []" for r
  proof -
    have "\<And>r'. strict_prefix r r' \<Longrightarrow> r' \<noteq> []" by auto
    with C3 that files show ?thesis by auto
  qed
  \<comment> \<open>the licence, the hash and the record\<close>
  note lic = copyLicense_lookup[OF cl]
  note sha = getGitSha_state[OF ro gs]
  have k3: "ticks s3 = ticks s"
    using copyFiles_ticks[OF cf] mkdirSync_ticks[OF mk] rm k0
    by (auto split: if_splits dest: rmSync_ticks)
  have k5: "ticks s5 = ticks s" using sha(2) lic(3) k3 by simp
  note w = writeFileSync_lookup[OF wr]
  have fin: "lookupNode (nodes s') q
      = (if q = ?outP @ [''SYNC.md'']
         then Some (File (syncContent v src sha (takeWhile (\<lambda>c. c \<noteq> CHR ''T'') (clock E (ticks s)))))
         else lookupNode (nodes s4) q)" for q
    using w[of q] sha(1) k5 by (simp add: s')
  have vend3: "lookupNode (nodes s3) [''vendor'', v, n] = ?L [''vendor'', v, n]" for n
  proof -
    have "\<not> strict_prefix ?outP [''vendor'', v, n]" "\<not> prefix ?outP [''vendor'', v, n]"
      "\<not> prefix [''vendor'', v, n] ?outP" by (simp_all add: strict_prefix_def)
    with C1 P2 show ?thesis by simp
  qed
  have find3: "List.find (\<lambda>n. existsSync (nodes s3) ([''vendor'', v] @ [n])) licenseNames
      = List.find (\<lambda>n. existsSync (nodes s) [''vendor'', v, n]) licenseNames"
    by (simp add: existsSync_def vend3)
  show "\<forall>q. \<not> prefix ?outP q \<longrightarrow> lookupNode (nodes s') q
           = (if ?L q = None \<and> prefix q ?outP then Some Dir else ?L q)"
  proof (intro allI impI)
    fix q assume q: "\<not> prefix ?outP q"
    then have "q \<noteq> ?outP @ [''SYNC.md'']" "q \<noteq> ?outP @ [''LICENSE.md'']"
      "\<not> strict_prefix ?outP q" by (auto simp: strict_prefix_def)
    with fin[of q] lic(1) C1 P2 q
    show "lookupNode (nodes s') q = (if ?L q = None \<and> prefix q ?outP then Some Dir else ?L q)"
      by simp
  qed
  show "lookupNode (nodes s') ?outP = Some Dir"
    using fin[of ?outP] lic(1) C1 P0 by (simp add: strict_prefix_def)
  show "\<forall>r. r \<noteq> [] \<longrightarrow> r \<noteq> [''SYNC.md''] \<longrightarrow>
           (r = [''LICENSE.md''] \<longrightarrow>
              List.find (\<lambda>n. existsSync (nodes s) [''vendor'', v, n]) licenseNames = None) \<longrightarrow>
           (\<forall>c. (lookupNode (nodes s') (?outP @ r) = Some (File c))
                = (?L (?srcP @ r) = Some (File c))) \<and>
           ((lookupNode (nodes s') (?outP @ r) = Some Dir)
              = (\<exists>r'. strict_prefix r r' \<and> (\<exists>c. ?L (?srcP @ r') = Some (File c))))"
  proof (intro allI impI)
    fix r :: path
    assume r: "r \<noteq> []" "r \<noteq> [''SYNC.md'']"
      and l: "r = [''LICENSE.md''] \<longrightarrow>
              List.find (\<lambda>n. existsSync (nodes s) [''vendor'', v, n]) licenseNames = None"
    have "lookupNode (nodes s4) (?outP @ r) = lookupNode (nodes s3) (?outP @ r)"
    proof (cases "r = [''LICENSE.md'']")
      case True
      with l lic(2) find3 show ?thesis by simp
    next
      case False
      with lic(1) show ?thesis by simp
    qed
    with fin[of "?outP @ r"] r have "lookupNode (nodes s') (?outP @ r) = lookupNode (nodes s3) (?outP @ r)"
      by simp
    with T3[OF r(1)] D3[OF r(1)]
    show "(\<forall>c. (lookupNode (nodes s') (?outP @ r) = Some (File c))
                = (?L (?srcP @ r) = Some (File c))) \<and>
           ((lookupNode (nodes s') (?outP @ r) = Some Dir)
              = (\<exists>r'. strict_prefix r r' \<and> (\<exists>c. ?L (?srcP @ r') = Some (File c))))"
      by simp
  qed
  show "\<forall>n. List.find (\<lambda>n. existsSync (nodes s) [''vendor'', v, n]) licenseNames = Some n \<longrightarrow>
           lookupNode (nodes s') [''skills'', out, ''LICENSE.md''] = ?L [''vendor'', v, n]"
    using fin[of "[''skills'', out, ''LICENSE.md'']"] lic(2) find3 vend3 by simp
  show "\<exists>g. lookupNode (nodes s') [''skills'', out, ''SYNC.md'']
           = Some (File (syncContent v src
               (case fst (shell E ''git rev-parse HEAD'' [''vendor'', v] g) of
                  Inl e \<Rightarrow> None | Inr out \<Rightarrow> Some (trim out))
               (takeWhile (\<lambda>c. c \<noteq> CHR ''T'') (clock E (ticks s)))))"
    using fin[of "[''skills'', out, ''SYNC.md'']"] sha(3) by auto
  show "ticks s' = Suc (ticks s)"
    using wr k5 by (auto simp: s' writeFileSync_def emit_def split: if_splits)
  show "?L ?srcP = Some Dir"
    using rde(1) src2[of "[]"] by simp
qed

subsection \<open>The loops of sync\<close>

lemma tree_shaped_closed:
  assumes "tree_shaped f" and "lookupNode f p = None"
  shows "lookupNode f (p @ r) = None"
proof (induction r rule: rev_induct)
  case Nil
  with assms(2) show ?case by simp
next
  case (snoc x r)
  show ?case
  proof (rule ccontr)
    assume "lookupNode f (p @ r @ [x]) \<noteq> None"
    then obtain n where "map_of f (p @ r @ [x]) = Some n" by (auto simp: lookupNode_def)
    then have "(p @ r @ [x], n) \<in> set f" by (rule map_of_SomeD)
    with assms(1) have "lookupNode f (butlast (p @ r @ [x])) \<noteq> None"
      by (auto simp: tree_shaped_def list_all_iff)
    then have "lookupNode f (p @ r) \<noteq> None" by (simp add: butlast_append)
    with snoc show False by simp
  qed
qed

lemma tree_shaped_closed_output: "tree_shaped f \<Longrightarrow> closed_output f out"
  unfolding closed_output_def using tree_shaped_closed by blast

text \<open>one pair: what lies outside its output directory stays\<close>

lemma syncSkill_frame:
  assumes ro: "\<And>cwd g. snd (shell E ''git rev-parse HEAD'' cwd g) = g"
    and run: "syncSkill E v (src, out) s = (Inr u, s')"
    and closed: "closed_output (nodes s) out"
    and q: "q \<noteq> [''skills'']" "\<not> prefix [''skills'', out] q"
  shows "lookupNode (nodes s') q = lookupNode (nodes s) q"
proof (cases "existsSync (nodes s) [''vendor'', v, ''skills'', src]")
  case False
  with run have "nodes s' = nodes s" by (cases rule: syncSkill_cases) simp_all
  then show ?thesis by simp
next
  case True
  from closed have c: "lookupNode (nodes s) [''skills'', out] = None
                 \<longrightarrow> (\<forall>r. lookupNode (nodes s) ([''skills'', out] @ r) = None)"
    by (simp add: closed_output_def)
  have "prefix q [''skills'', out] \<Longrightarrow> q = []"
    using q by (cases q) (auto simp: prefix_Cons)
  with syncSkill_ok(1)[OF ro run True c] q(2) show ?thesis by auto
qed

lemma syncSkill_closed:
  assumes ro: "\<And>cwd g. snd (shell E ''git rev-parse HEAD'' cwd g) = g"
    and run: "syncSkill E v (src, out) s = (Inr u, s')"
    and closed: "closed_output (nodes s) out" "closed_output (nodes s) out'"
  shows "closed_output (nodes s') out'"
proof (cases "out' = out")
  case False
  have "lookupNode (nodes s') ([''skills'', out'] @ r) = lookupNode (nodes s) ([''skills'', out'] @ r)"
    for r
    using False by (intro syncSkill_frame[OF ro run closed(1)]) simp_all
  from this[of "[]"] this closed(2) show ?thesis by (simp add: closed_output_def)
next
  case True
  show ?thesis
  proof (cases "existsSync (nodes s) [''vendor'', v, ''skills'', src]")
    case False
    with run have "nodes s' = nodes s" by (cases rule: syncSkill_cases) simp_all
    with closed(2) show ?thesis by simp
  next
    case ex: True
    from closed have c: "lookupNode (nodes s) [''skills'', out] = None
                 \<longrightarrow> (\<forall>r. lookupNode (nodes s) ([''skills'', out] @ r) = None)"
      by (simp add: closed_output_def)
    from syncSkill_ok(2)[OF ro run ex c] True show ?thesis by (simp add: closed_output_def)
  qed
qed

text \<open>invariants of the two loops\<close>

lemma syncSkills_invariant:
  assumes step: "\<And>src out t t'. (src, out) \<in> set pairs \<Longrightarrow> I (nodes t) \<Longrightarrow>
      syncSkill E v (src, out) t = (Inr (), t') \<Longrightarrow> I (nodes t')"
  shows "syncSkills E v pairs s = (Inr u, s') \<Longrightarrow> I (nodes s) \<Longrightarrow> I (nodes s')"
  using step
proof (induction pairs arbitrary: s)
  case Nil
  then show ?case by simp
next
  case (Cons pair rest)
  obtain src out where pair: "pair = (src, out)" by (cases pair)
  obtain r1 s1 where st: "syncSkill E v (src, out) s = (r1, s1)" by (rule prod.exhaust)
  with Cons.prems(1) pair have r1: "r1 = Inr ()" by (cases r1) simp_all
  with Cons.prems(1) pair st have rest: "syncSkills E v rest s1 = (Inr u, s')" by simp
  from Cons.prems(3)[of src out s s1] st r1 pair Cons.prems(2) have i1: "I (nodes s1)" by simp
  show ?case
  proof (rule Cons.IH[OF rest i1])
    fix src out t t'
    assume "(src, out) \<in> set rest" "I (nodes t)" "syncSkill E v (src, out) t = (Inr (), t')"
    then show "I (nodes t')" using Cons.prems(3)[of src out t t'] by simp
  qed
qed

lemma syncVendor_skills:
  assumes "syncVendor E (v, config) s = (r, s')"
  shows "(nodes s' = nodes s \<and> r = Inr () \<and> (\<exists>m. s' = emit (LogWarn m) s) \<and>
          \<not> (existsSync (nodes s) [''vendor'', v] \<and> existsSync (nodes s) [''vendor'', v, ''skills'']))
         \<or> (existsSync (nodes s) [''vendor'', v] \<and> existsSync (nodes s) [''vendor'', v, ''skills'']
            \<and> syncSkills E v (skills config) s = (r, s'))"
  using assms by (auto simp: syncVendor_def Let_def split: if_splits)

lemma syncVendors_invariant:
  assumes step: "\<And>v config src out t t'. (v, config) \<in> set vs \<Longrightarrow> (src, out) \<in> set (skills config)
      \<Longrightarrow> I (nodes t) \<Longrightarrow> syncSkill E v (src, out) t = (Inr (), t') \<Longrightarrow> I (nodes t')"
  shows "syncVendors E vs s = (Inr u, s') \<Longrightarrow> I (nodes s) \<Longrightarrow> I (nodes s')"
  using step
proof (induction vs arbitrary: s)
  case Nil
  then show ?case by simp
next
  case (Cons entry rest)
  obtain v config where entry: "entry = (v, config)" by (cases entry)
  obtain r1 s1 where st: "syncVendor E (v, config) s = (r1, s1)" by (rule prod.exhaust)
  with Cons.prems(1) entry have r1: "r1 = Inr ()" by (cases r1) simp_all
  with Cons.prems(1) entry st have rest: "syncVendors E rest s1 = (Inr u, s')" by simp
  have i1: "I (nodes s1)"
    using syncVendor_skills[OF st]
  proof
    assume "nodes s1 = nodes s \<and> r1 = Inr () \<and> (\<exists>m. s1 = emit (LogWarn m) s) \<and>
          \<not> (existsSync (nodes s) [''vendor'', v] \<and> existsSync (nodes s) [''vendor'', v, ''skills''])"
    with Cons.prems(2) show ?thesis by simp
  next
    assume "existsSync (nodes s) [''vendor'', v] \<and> existsSync (nodes s) [''vendor'', v, ''skills'']
            \<and> syncSkills E v (skills config) s = (r1, s1)"
    with r1 have sk: "syncSkills E v (skills config) s = (Inr (), s1)" by simp
    show ?thesis
      by (rule syncSkills_invariant[where I = I, OF _ sk Cons.prems(2)])
         (rule Cons.prems(3)[of v config], simp_all add: entry)
  qed
  show ?case
  proof (rule Cons.IH[OF rest i1])
    fix v config src out t t'
    assume "(v, config) \<in> set rest" "(src, out) \<in> set (skills config)" "I (nodes t)"
      "syncSkill E v (src, out) t = (Inr (), t')"
    then show "I (nodes t')" using Cons.prems(3)[of v config src out t t'] by simp
  qed
qed

lemma frame_step:
  assumes ro: "\<And>cwd g. snd (shell E ''git rev-parse HEAD'' cwd g) = g"
    and out: "out \<in> Os"
    and I: "(\<forall>out'. closed_output (nodes t) out') \<and>
       (\<forall>q. q \<noteq> [''skills''] \<longrightarrow> (\<forall>out \<in> Os. \<not> prefix [''skills'', out] q)
          \<longrightarrow> lookupNode (nodes t) q = L0 q)"
    and run: "syncSkill E v (src, out) t = (Inr (), t')"
  shows "(\<forall>out'. closed_output (nodes t') out') \<and>
       (\<forall>q. q \<noteq> [''skills''] \<longrightarrow> (\<forall>out \<in> Os. \<not> prefix [''skills'', out] q)
          \<longrightarrow> lookupNode (nodes t') q = L0 q)"
proof (intro conjI allI impI)
  fix out'
  from I show "closed_output (nodes t') out'"
    by (intro syncSkill_closed[OF ro run]) simp_all
next
  fix q assume q: "q \<noteq> [''skills'']" "\<forall>out \<in> Os. \<not> prefix [''skills'', out] q"
  with out have "\<not> prefix [''skills'', out] q" by blast
  from syncSkill_frame[OF ro run _ q(1) this] I q show "lookupNode (nodes t') q = L0 q" by simp
qed

lemma syncSkills_frame:
  assumes ro: "\<And>cwd g. snd (shell E ''git rev-parse HEAD'' cwd g) = g"
    and run: "syncSkills E v ps s = (Inr u, s')"
    and closed: "\<forall>out. closed_output (nodes s) out"
  shows "\<forall>out. closed_output (nodes s') out"
    and "\<forall>q. q \<noteq> [''skills''] \<longrightarrow> (\<forall>out \<in> snd ` set ps. \<not> prefix [''skills'', out] q)
          \<longrightarrow> lookupNode (nodes s') q = lookupNode (nodes s) q"
proof -
  let ?I = "\<lambda>f'. (\<forall>out'. closed_output f' out') \<and>
       (\<forall>q. q \<noteq> [''skills''] \<longrightarrow> (\<forall>out \<in> snd ` set ps. \<not> prefix [''skills'', out] q)
          \<longrightarrow> lookupNode f' q = lookupNode (nodes s) q)"
  have "?I (nodes s')"
  proof (rule syncSkills_invariant[where I = ?I, OF _ run])
    from closed show "?I (nodes s)" by simp
  next
    fix src out t t'
    assume m: "(src, out) \<in> set ps" and i: "?I (nodes t)"
      and st: "syncSkill E v (src, out) t = (Inr (), t')"
    from m have "out \<in> snd ` set ps" by force
    from frame_step[OF ro this i st] show "?I (nodes t')" .
  qed
  then show "\<forall>out. closed_output (nodes s') out"
    and "\<forall>q. q \<noteq> [''skills''] \<longrightarrow> (\<forall>out \<in> snd ` set ps. \<not> prefix [''skills'', out] q)
          \<longrightarrow> lookupNode (nodes s') q = lookupNode (nodes s) q"
    by simp_all
qed

lemma outputs_mem: "(v, config) \<in> set vs \<Longrightarrow> (src, out) \<in> set (skills config) \<Longrightarrow> out \<in> set (outputs vs)"
  by (force simp: outputs_def)

lemma syncVendors_frame:
  assumes ro: "\<And>cwd g. snd (shell E ''git rev-parse HEAD'' cwd g) = g"
    and run: "syncVendors E vs s = (Inr u, s')"
    and closed: "\<forall>out. closed_output (nodes s) out"
  shows "\<forall>out. closed_output (nodes s') out"
    and "\<forall>q. q \<noteq> [''skills''] \<longrightarrow> (\<forall>out \<in> set (outputs vs). \<not> prefix [''skills'', out] q)
          \<longrightarrow> lookupNode (nodes s') q = lookupNode (nodes s) q"
proof -
  let ?I = "\<lambda>f'. (\<forall>out'. closed_output f' out') \<and>
       (\<forall>q. q \<noteq> [''skills''] \<longrightarrow> (\<forall>out \<in> set (outputs vs). \<not> prefix [''skills'', out] q)
          \<longrightarrow> lookupNode f' q = lookupNode (nodes s) q)"
  have "?I (nodes s')"
  proof (rule syncVendors_invariant[where I = ?I, OF _ run])
    from closed show "?I (nodes s)" by simp
  next
    fix v config src out t t'
    assume m: "(v, config) \<in> set vs" "(src, out) \<in> set (skills config)" and i: "?I (nodes t)"
      and st: "syncSkill E v (src, out) t = (Inr (), t')"
    from frame_step[OF ro outputs_mem[OF m] i st] show "?I (nodes t')" .
  qed
  then show "\<forall>out. closed_output (nodes s') out"
    and "\<forall>q. q \<noteq> [''skills''] \<longrightarrow> (\<forall>out \<in> set (outputs vs). \<not> prefix [''skills'', out] q)
          \<longrightarrow> lookupNode (nodes s') q = lookupNode (nodes s) q"
    by simp_all
qed

lemma syncSkills_append:
  "syncSkills E v (ps1 @ ps2) s = (Inr u, s') \<Longrightarrow>
   \<exists>s1. syncSkills E v ps1 s = (Inr (), s1) \<and> syncSkills E v ps2 s1 = (Inr u, s')"
proof (induction ps1 arbitrary: s)
  case Nil
  then show ?case by simp
next
  case (Cons pair ps1)
  obtain r1 s1 where st: "syncSkill E v pair s = (r1, s1)" by (rule prod.exhaust)
  with Cons.prems have r1: "r1 = Inr ()" by (cases r1) simp_all
  with Cons.prems st have "syncSkills E v (ps1 @ ps2) s1 = (Inr u, s')" by simp
  from Cons.IH[OF this] st r1 show ?case by simp
qed

lemma syncVendors_append:
  "syncVendors E (vs1 @ vs2) s = (Inr u, s') \<Longrightarrow>
   \<exists>s1. syncVendors E vs1 s = (Inr (), s1) \<and> syncVendors E vs2 s1 = (Inr u, s')"
proof (induction vs1 arbitrary: s)
  case Nil
  then show ?case by simp
next
  case (Cons entry vs1)
  obtain r1 s1 where st: "syncVendor E entry s = (r1, s1)" by (rule prod.exhaust)
  with Cons.prems have r1: "r1 = Inr ()" by (cases r1) simp_all
  with Cons.prems st have "syncVendors E (vs1 @ vs2) s1 = (Inr u, s')" by simp
  from Cons.IH[OF this] st r1 show ?case by simp
qed

lemma vendor_path_free: "''vendor'' # r \<noteq> [''skills'']" "\<not> prefix [''skills'', out] (''vendor'' # r)"
  by simp_all

lemma sync_reaches_pair:
  assumes ro: "\<And>cwd g. snd (shell E ''git rev-parse HEAD'' cwd g) = g"
    and run: "syncVendors E vs s = (Inr u, s')"
    and closed: "\<forall>out. closed_output (nodes s) out"
    and mem: "(v, config) \<in> set vs" "(src, out) \<in> set (skills config)"
    and ex: "existsSync (nodes s) [''vendor'', v]" "existsSync (nodes s) [''vendor'', v, ''skills'']"
  obtains vs1 vs2 ps1 ps2 sA sB sC sD where
    "vs = vs1 @ (v, config) # vs2" "skills config = ps1 @ (src, out) # ps2"
    "syncVendors E vs1 s = (Inr (), sA)" "syncSkills E v ps1 sA = (Inr (), sB)"
    "syncSkill E v (src, out) sB = (Inr (), sC)" "syncSkills E v ps2 sC = (Inr (), sD)"
    "syncVendors E vs2 sD = (Inr u, s')"
    "\<forall>out. closed_output (nodes sB) out" "\<forall>out. closed_output (nodes sC) out"
    "\<forall>out. closed_output (nodes sD) out"
    "\<forall>r. lookupNode (nodes sB) (''vendor'' # r) = lookupNode (nodes s) (''vendor'' # r)"
proof -
  from mem(1) obtain vs1 vs2 where vs: "vs = vs1 @ (v, config) # vs2" by (auto dest: split_list)
  from mem(2) obtain ps1 ps2 where ps: "skills config = ps1 @ (src, out) # ps2"
    by (auto dest: split_list)
  from syncVendors_append[OF run[unfolded vs]] obtain sA where
    a: "syncVendors E vs1 s = (Inr (), sA)" and a': "syncVendors E ((v, config) # vs2) sA = (Inr u, s')"
    by blast
  note fA = syncVendors_frame[OF ro a closed]
  have vA: "lookupNode (nodes sA) (''vendor'' # r) = lookupNode (nodes s) (''vendor'' # r)" for r
    using fA(2) vendor_path_free by simp
  obtain r1 sD where st: "syncVendor E (v, config) sA = (r1, sD)" by (rule prod.exhaust)
  with a' have r1: "r1 = Inr ()" by (cases r1) simp_all
  with a' st have d': "syncVendors E vs2 sD = (Inr u, s')" by simp
  from ex vA have "existsSync (nodes sA) [''vendor'', v]" "existsSync (nodes sA) [''vendor'', v, ''skills'']"
    by (simp_all add: existsSync_def)
  with syncVendor_skills[OF st] r1 have "syncSkills E v (skills config) sA = (Inr (), sD)" by auto
  from syncSkills_append[OF this[unfolded ps]] obtain sB where
    b: "syncSkills E v ps1 sA = (Inr (), sB)" and b': "syncSkills E v ((src, out) # ps2) sB = (Inr (), sD)"
    by blast
  note fB = syncSkills_frame[OF ro b fA(1)]
  have vB: "\<forall>r. lookupNode (nodes sB) (''vendor'' # r) = lookupNode (nodes s) (''vendor'' # r)"
    using fB(2) vendor_path_free vA by simp
  obtain r2 sC where c: "syncSkill E v (src, out) sB = (r2, sC)" by (rule prod.exhaust)
  with b' have r2: "r2 = Inr ()" by (cases r2) simp_all
  with b' c have c': "syncSkills E v ps2 sC = (Inr (), sD)" by simp
  from c r2 have c2: "syncSkill E v (src, out) sB = (Inr (), sC)" by simp
  have clC: "\<forall>out'. closed_output (nodes sC) out'"
    using fB(1) by (auto intro: syncSkill_closed[OF ro c2])
  note fD = syncSkills_frame[OF ro c' clC]
  from vs ps a b c2 c' d' fB(1) clC fD(1) vB show thesis by (rule that)
qed

lemma tree_shaped_parent:
  assumes "tree_shaped f" and "lookupNode f (p @ r) \<noteq> None"
  shows "lookupNode f p \<noteq> None"
  using tree_shaped_closed[OF assms(1), of p r] assms(2) by blast

lemma outputs_split:
  "outputs (vs1 @ (v, config) # vs2) = outputs vs1 @ map snd (skills config) @ outputs vs2"
  by (simp add: outputs_def)

lemma syncSubmodules_vendors:
  assumes upd: "shell E ''git submodule update --remote --merge'' [] (nodes s) = (Inr upd_out, f)"
    and run: "syncSubmodules E s = (Inr (), s')"
  obtains s1 s2 where "nodes s1 = f" "ticks s1 = ticks s"
    "trace s1 = trace s @ [SpinnerStart ''Updating submodules...'',
        Exec ''git submodule update --remote --merge'' [], SpinnerStop ''Submodules updated'']"
    "syncVendors E (vendors E) s1 = (Inr (), s2)"
    "s' = emit (LogSuccess ''All skills synced'') s2"
proof -
  let ?s1 = "emit (SpinnerStop ''Submodules updated'')
      (emit (Exec ''git submodule update --remote --merge'' [])
        ((emit (SpinnerStart ''Updating submodules...'') s)\<lparr>nodes := f\<rparr>))"
  from upd have ex: "exec E ''git submodule update --remote --merge'' []
      (emit (SpinnerStart ''Updating submodules...'') s)
      = (Inr (trim upd_out), emit (Exec ''git submodule update --remote --merge'' [])
        ((emit (SpinnerStart ''Updating submodules...'') s)\<lparr>nodes := f\<rparr>))"
    by (simp add: exec_def)
  obtain r2 s2 where sv: "syncVendors E (vendors E) ?s1 = (r2, s2)" by (rule prod.exhaust)
  from run ex sv have r2: "r2 = Inr ()" by (cases r2) (simp_all add: syncSubmodules_def Let_def)
  from run ex sv r2 have s': "s' = emit (LogSuccess ''All skills synced'') s2"
    by (simp add: syncSubmodules_def Let_def)
  show thesis
  proof (rule that[of ?s1 s2])
    show "nodes ?s1 = f" "ticks ?s1 = ticks s" by (simp_all add: emit_def)
    show "trace ?s1 = trace s @ [SpinnerStart ''Updating submodules...'',
        Exec ''git submodule update --remote --merge'' [], SpinnerStop ''Submodules updated'']"
      by (simp add: emit_def)
    from sv r2 show "syncVendors E (vendors E) ?s1 = (Inr (), s2)" by (simp only:)
    show "s' = emit (LogSuccess ''All skills synced'') s2" by (rule s')
  qed
qed


section \<open>The claims\<close>

subsection \<open>init\<close>

text \<open>
  C5. \<open>init()\<close> runs \<^verbatim>\<open>git submodule add\<close> only for projects whose path the manifest
  test did not find (given that the prompt returns some of the options it was shown), and
  when the test finds every configured project, \<open>init()\<close> logs that all are initialised
  and returns normally: nothing else is added to the trace, so no prompt is shown, and
  the file system is as before.
\<close>

theorem C5_init_no_readd:
  "((\<forall>opts sel. multiselect E opts = Some sel \<longrightarrow> set sel \<subseteq> set opts) \<and>
      Exec cmd cwd \<in> set (effects s (snd (initSubmodules E s)))
    \<longrightarrow> (\<exists>proj \<in> set (allProjects E). cmd = add_cmd proj \<and> cwd = [] \<and>
           submoduleExists s (p_path proj) = Inr False))
   \<and> ((\<forall>proj \<in> set (allProjects E1). submoduleExists s1 (p_path proj) = Inr True)
    \<longrightarrow> initSubmodules E1 s1
          = (Inr (), emit (LogInfo ''All submodules already initialized'') s1))"
proof (intro conjI impI)
  assume a: "(\<forall>opts sel. multiselect E opts = Some sel \<longrightarrow> set sel \<subseteq> set opts) \<and>
      Exec cmd cwd \<in> set (effects s (snd (initSubmodules E s)))"
  from initSubmodules_effects[of E s] obtain evs where
    evs: "trace (snd (initSubmodules E s)) = trace s @ evs"
      "\<forall>cmd cwd. Exec cmd cwd \<in> set evs \<longrightarrow>
        (\<exists>new sel. newProjects E s = Inr new \<and> multiselect E new = Some sel \<and>
           (\<exists>proj \<in> set sel. cmd = add_cmd proj \<and> cwd = []))"
    by blast
  from effects_append[OF evs(1)] a have "Exec cmd cwd \<in> set evs" by simp
  with evs(2) obtain new sel proj where
    n: "newProjects E s = Inr new" "multiselect E new = Some sel" "proj \<in> set sel"
      "cmd = add_cmd proj" "cwd = []"
    by blast
  from a n(2,3) have "proj \<in> set new" by blast
  with newProjects_Inr[OF n(1)] have
    "proj \<in> set (allProjects E)" "submoduleExists s (p_path proj) = Inr False"
    by simp_all
  with n(4,5) show "\<exists>proj \<in> set (allProjects E). cmd = add_cmd proj \<and> cwd = [] \<and>
           submoduleExists s (p_path proj) = Inr False"
    by blast
next
  assume all: "\<forall>proj \<in> set (allProjects E1). submoduleExists s1 (p_path proj) = Inr True"
  then have "filterE (\<lambda>p. submoduleExists s1 (p_path p)) (allProjects E1)
               = Inr (filter (\<lambda>p. True) (allProjects E1))"
    by (intro filterE_total) simp
  then have ex: "existingProjects E1 s1 = Inr (allProjects E1)"
    by (simp add: existingProjects_def)
  from all have "filterE (\<lambda>p. notE (submoduleExists s1 (p_path p))) (allProjects E1)
               = Inr (filter (\<lambda>p. False) (allProjects E1))"
    by (intro filterE_total) (simp add: notE_def)
  then have nw: "newProjects E1 s1 = Inr []"
    by (simp add: newProjects_def)
  from ex nw show "initSubmodules E1 s1
          = (Inr (), emit (LogInfo ''All submodules already initialized'') s1)"
    by (simp add: initSubmodules_def)
qed

theorem C5_init_no_readd_witness:
  "(\<exists>proj \<in> set (allProjects demo_env).
      ''git submodule add https://github.com/vitejs/vite sources/vite'' = add_cmd proj \<and>
      ([] :: path) = [] \<and> submoduleExists demo_init (p_path proj) = Inr False)
   \<and> initSubmodules demo_env demo_registered
       = (Inr (), emit (LogInfo ''All submodules already initialized'') demo_registered)"
proof -
  have h1: "\<forall>opts sel. multiselect demo_env opts = Some sel \<longrightarrow> set sel \<subseteq> set opts"
    by (simp add: demo_env_def)
  have h2: "Exec ''git submodule add https://github.com/vitejs/vite sources/vite'' []
              \<in> set (effects demo_init (snd (initSubmodules demo_env demo_init)))"
    by code_simp
  have h3: "\<forall>proj \<in> set (allProjects demo_env).
              submoduleExists demo_registered (p_path proj) = Inr True"
    by code_simp
  note inst = C5_init_no_readd[of demo_env
      "''git submodule add https://github.com/vitejs/vite sources/vite''" "[]" demo_init
      demo_env demo_registered]
  from inst[THEN conjunct1, THEN mp, OF conjI[OF h1 h2]] inst[THEN conjunct2, THEN mp, OF h3]
  show ?thesis by (rule conjI)
qed

text \<open>
  C9. When the prompt is shown and the operator cancels it, \<open>init()\<close> returns normally;
  the trace gains the prompt and the cancellation notice and nothing else, and the file
  system and the clock are untouched: no directory is made and no command is run.
\<close>

theorem C9_init_cancel:
  assumes "newProjects E s = Inr new" and "new \<noteq> []" and "multiselect E new = None"
  shows "initSubmodules E s
           = (Inr (), s\<lparr>trace := trace s @ [Multiselect new, Cancel ''Cancelled'']\<rparr>)"
proof -
  from newProjects_existing[OF assms(1)] obtain ex where "existingProjects E s = Inr ex"
    by blast
  with assms show ?thesis
    by (simp add: initSubmodules_def Let_def emit_def)
qed

theorem C9_init_cancel_witness:
  "initSubmodules demo_env_cancel demo_init
     = (Inr (), demo_init\<lparr>trace := trace demo_init @ [Multiselect demo_new, Cancel ''Cancelled'']\<rparr>)"
proof -
  have h1: "newProjects demo_env_cancel demo_init = Inr demo_new" by code_simp
  have h2: "demo_new \<noteq> []" by code_simp
  have h3: "multiselect demo_env_cancel demo_new = None"
    by (simp add: demo_env_cancel_def)
  show ?thesis by (rule C9_init_cancel[OF h1 h2 h3])
qed

text \<open>
  C10. \<open>init()\<close> takes a project for registered exactly when the text \<^verbatim>\<open>path = \<close> followed
  by the project's path occurs somewhere in \<^verbatim>\<open>.gitmodules\<close>. So a project whose path is
  a proper prefix of a path entry of the manifest is classified as existing and is not
  among the options of the prompt; and without a manifest every configured project is
  new.
\<close>

theorem C10_manifest_substring_test:
  "(lookupNode (nodes s) [''.gitmodules''] = Some (File content)
    \<longrightarrow> submoduleExists s p
          = Inr (\<exists>pre post. content = pre @ ''path = '' @ path_text p @ post))
   \<and> (lookupNode (nodes s1) [''.gitmodules''] = Some (File (pre1 @ ''path = '' @ entry @ post1)) \<and>
      strict_prefix (path_text (p_path proj)) entry \<and> proj \<in> set (allProjects E1)
    \<longrightarrow> (\<exists>ex new. existingProjects E1 s1 = Inr ex \<and> newProjects E1 s1 = Inr new \<and>
           proj \<in> set ex \<and> proj \<notin> set new) \<and>
        (\<forall>opts. Multiselect opts \<in> set (effects s1 (snd (initSubmodules E1 s1)))
           \<longrightarrow> proj \<notin> set opts))
   \<and> (lookupNode (nodes s2) [''.gitmodules''] = None
    \<longrightarrow> newProjects E2 s2 = Inr (allProjects E2) \<and> existingProjects E2 s2 = Inr [])"
proof (intro conjI impI)
  assume "lookupNode (nodes s) [''.gitmodules''] = Some (File content)"
  then show "submoduleExists s p
          = Inr (\<exists>pre post. content = pre @ ''path = '' @ path_text p @ post)"
    by (simp only: submoduleExists_file str_includes_iff append_assoc)
next
  assume a: "lookupNode (nodes s1) [''.gitmodules''] = Some (File (pre1 @ ''path = '' @ entry @ post1)) \<and>
      strict_prefix (path_text (p_path proj)) entry \<and> proj \<in> set (allProjects E1)"
  let ?content = "pre1 @ ''path = '' @ entry @ post1"
  let ?g = "\<lambda>p. str_includes ?content (''path = '' @ path_text (p_path p))"
  from a obtain rest where entry: "entry = path_text (p_path proj) @ rest"
    by (auto simp: strict_prefix_def prefix_def)
  have "?content = pre1 @ (''path = '' @ path_text (p_path proj)) @ (rest @ post1)"
    by (simp add: entry)
  then have inc: "?g proj" by (subst str_includes_iff) blast
  from a have sub: "\<And>p. submoduleExists s1 p = Inr (str_includes ?content (''path = '' @ path_text p))"
    by (simp only: submoduleExists_file)
  have "filterE (\<lambda>p. submoduleExists s1 (p_path p)) (allProjects E1) = Inr (filter ?g (allProjects E1))"
    by (intro filterE_total) (simp only: sub)
  then have ex: "existingProjects E1 s1 = Inr (filter ?g (allProjects E1))"
    by (simp only: existingProjects_def)
  have "filterE (\<lambda>p. notE (submoduleExists s1 (p_path p))) (allProjects E1)
          = Inr (filter (\<lambda>p. \<not> ?g p) (allProjects E1))"
    by (intro filterE_total) (simp only: sub notE_def sum.case)
  then have nw: "newProjects E1 s1 = Inr (filter (\<lambda>p. \<not> ?g p) (allProjects E1))"
    by (simp only: newProjects_def)
  from a inc have mem: "proj \<in> set (filter ?g (allProjects E1))"
    "proj \<notin> set (filter (\<lambda>p. \<not> ?g p) (allProjects E1))"
    by simp_all
  with ex nw show "\<exists>ex new. existingProjects E1 s1 = Inr ex \<and> newProjects E1 s1 = Inr new \<and>
           proj \<in> set ex \<and> proj \<notin> set new"
    by blast
  from initSubmodules_effects[of E1 s1] obtain evs where
    evs: "trace (snd (initSubmodules E1 s1)) = trace s1 @ evs"
      "\<forall>opts. Multiselect opts \<in> set evs \<longrightarrow> newProjects E1 s1 = Inr opts"
    by blast
  show "\<forall>opts. Multiselect opts \<in> set (effects s1 (snd (initSubmodules E1 s1)))
           \<longrightarrow> proj \<notin> set opts"
  proof (intro allI impI)
    fix opts
    assume "Multiselect opts \<in> set (effects s1 (snd (initSubmodules E1 s1)))"
    with effects_append[OF evs(1)] evs(2) have "newProjects E1 s1 = Inr opts" by simp
    with nw mem(2) show "proj \<notin> set opts" by simp
  qed
next
  assume a: "lookupNode (nodes s2) [''.gitmodules''] = None"
  have "filterE (\<lambda>p. notE (submoduleExists s2 (p_path p))) (allProjects E2)
          = Inr (filter (\<lambda>p. True) (allProjects E2))"
    by (intro filterE_total) (simp add: submoduleExists_absent[OF a] notE_def)
  then show "newProjects E2 s2 = Inr (allProjects E2)" by (simp add: newProjects_def)
  have "filterE (\<lambda>p. submoduleExists s2 (p_path p)) (allProjects E2)
          = Inr (filter (\<lambda>p. False) (allProjects E2))"
    by (intro filterE_total) (simp add: submoduleExists_absent[OF a])
  then show "existingProjects E2 s2 = Inr []" by (simp add: existingProjects_def)
qed

theorem C10_manifest_substring_test_witness:
  "submoduleExists demo_init [''sources'', ''vue'']
     = Inr (\<exists>pre post. demo_manifest = pre @ ''path = '' @ path_text [''sources'', ''vue''] @ post)
   \<and> (\<exists>ex new. existingProjects demo_env demo_init = Inr ex \<and>
          newProjects demo_env demo_init = Inr new \<and> demo_vue \<in> set ex \<and> demo_vue \<notin> set new)
   \<and> demo_vue \<notin> set demo_new
   \<and> newProjects demo_env demo_fresh = Inr (allProjects demo_env)
   \<and> existingProjects demo_env demo_fresh = Inr []"
proof -
  have h1: "lookupNode (nodes demo_init) [''.gitmodules''] = Some (File demo_manifest)"
    by (simp add: demo_init_def lookupNode_def)
  have h2: "lookupNode (nodes demo_init) [''.gitmodules'']
              = Some (File ([] @ ''path = '' @ ''sources/vue-router''
                              @ (nl @ ''path = vendor/slidev'' @ nl)))
            \<and> strict_prefix (path_text (p_path demo_vue)) ''sources/vue-router''
            \<and> demo_vue \<in> set (allProjects demo_env)"
    by code_simp
  have h3: "lookupNode (nodes demo_fresh) [''.gitmodules''] = None"
    by (simp add: demo_fresh_def lookupNode_def)
  have h4: "Multiselect demo_new
              \<in> set (effects demo_init (snd (initSubmodules demo_env demo_init)))"
    by code_simp
  note inst = C10_manifest_substring_test[of demo_init demo_manifest "[''sources'', ''vue'']"
      demo_init "[]" "''sources/vue-router''" "nl @ ''path = vendor/slidev'' @ nl" demo_vue
      demo_env demo_fresh demo_env]
  note a = inst[THEN conjunct1, THEN mp, OF h1]
    and b = inst[THEN conjunct2, THEN conjunct1, THEN mp, OF h2]
    and c = inst[THEN conjunct2, THEN conjunct2, THEN mp, OF h3]
  note b1 = b[THEN conjunct1] and b2 = b[THEN conjunct2, THEN spec, THEN mp, OF h4]
  show ?thesis by (rule conjI[OF a conjI[OF b1 conjI[OF b2 c]]])
qed




subsection \<open>check\<close>



subsection \<open>sync\<close>

text \<open>
  C2, as the code has it. With an update that fails, \<open>sync()\<close> does not raise: it
  catches the error, stops the spinner with the failure and returns normally.
\<close>

theorem C2_update_failure_returns:
  "syncSubmodules demo_env_offline demo_sync
     = (Inr (), demo_sync\<lparr>trace :=
          [SpinnerStart ''Updating submodules...'',
           Exec ''git submodule update --remote --merge'' [],
           SpinnerStop ''Failed to update submodules: Error: fatal: unable to access the remote'']\<rparr>)"
  by code_simp

text \<open>
  C2, amended. When the update of the submodules fails, \<open>sync()\<close> reports the failure
  through the spinner and returns: the one command it has run is the update, the file
  system is as that command left it, and the trace shows no removal, no copy, no
  directory made and no file written, so the loop over the vendors is never entered.
\<close>

theorem C2_update_failure_aborts:
  assumes "shell E ''git submodule update --remote --merge'' [] (nodes s) = (Inl msg, f)"
  shows "syncSubmodules E s
           = (Inr (), s\<lparr>nodes := f,
                trace := trace s @
                  [SpinnerStart ''Updating submodules...'',
                   Exec ''git submodule update --remote --merge'' [],
                   SpinnerStop (''Failed to update submodules: '' @ error_text (ExecError msg))]\<rparr>)"
  using assms by (simp add: syncSubmodules_def Let_def exec_def emit_def)

theorem C2_update_failure_aborts_witness:
  "syncSubmodules demo_env_offline demo_sync
     = (Inr (), demo_sync\<lparr>nodes := nodes demo_sync,
          trace := trace demo_sync @
            [SpinnerStart ''Updating submodules...'',
             Exec ''git submodule update --remote --merge'' [],
             SpinnerStop (''Failed to update submodules: ''
                @ error_text (ExecError ''fatal: unable to access the remote''))]\<rparr>)"
proof -
  have h: "shell demo_env_offline ''git submodule update --remote --merge'' [] (nodes demo_sync)
             = (Inl ''fatal: unable to access the remote'', nodes demo_sync)"
    by (simp add: demo_env_offline_def demo_env_def)
  show ?thesis by (rule C2_update_failure_aborts[OF h])
qed




end
